theory Spec2Isabelle
  imports Complex_Main "HOL-Library.List_Lexorder" "HOL-Library.Char_ord" "HOL-Library.Multiset"
begin

section \<open>Flaky test analysis engine of LogMiner-QA\<close>

text \<open>
  A shallow embedding of \<^verbatim>\<open>src/logminer_qa/flaky_test_analyzer.py\<close>.

  Conventions of the embedding.
  \<^item> A Python \<^verbatim>\<open>str\<close> is a \<^typ>\<open>string\<close>: a list of 8-bit characters, read as the
    code points U+0000 to U+00FF. Text with code points beyond U+00FF is outside the model.
  \<^item> A Python \<^verbatim>\<open>int\<close> is an \<^typ>\<open>int\<close>.
  \<^item> A finite Python \<^verbatim>\<open>float\<close> is the rational number it denotes. The true division
    \<^verbatim>\<open>a / b\<close> of two ints rounds the exact quotient to a binary64 value; the rounding
    function is a parameter \<open>rnd\<close> of the model, so every theorem holds for whatever
    rounding the interpreter applies (the theorems that need a property of the rounding
    say which). Doubling and \<^verbatim>\<open>min\<close> are exact on floats and are modelled exactly.
  \<^item> An exception is a value of type \<open>exn\<close>; a function that can raise returns
    \<open>exn + 'a\<close>, with \<open>Inl\<close> for the exception.
  \<^item> The parsers and the loader return, next to their records, the list of what they
    pass to \<^verbatim>\<open>LOGGER\<close>.
\<close>

subsection \<open>Data classes\<close>

text \<open>
  The exceptions of the source and of the library calls it makes. \<open>IllTyped\<close> is no
  exception of Python: it is the outcome of the model where the source goes on with a
  value that the annotations of its dataclasses exclude and the model's types cannot
  hold (see \<open>parse_json_record\<close>).
\<close>

datatype exn =
    ZeroDivisionError
  | ValueError
  | TypeError
  | OverflowError
  | AttributeError
  | OSError
  | ParseError
  | JSONDecodeError
  | UnicodeDecodeError
  | IllTyped

type_synonym rounding = "rat \<Rightarrow> rat"

text \<open>The values a Python float takes: finite ones, the two infinities and NaN.\<close>

datatype pyfloat = Finite rat | PosInf | NegInf | NaN

record TestExecution =
  test_name :: string
  status :: string
  run_id :: string
  duration_seconds :: pyfloat
  error_message :: string
  timestamp :: string

text \<open>
  \<^verbatim>\<open>FlakyTestResult\<close>. Its field \<^verbatim>\<open>test_name\<close> is \<open>test_name_r\<close> here, since a record
  field is a global name. The three list fields are built by \<^verbatim>\<open>list({...})\<close> in the
  source, whose order is the iteration order of a set of strings and is not fixed by
  the language; the model lists the elements in order of first occurrence, and no
  theorem below depends on the order.
\<close>

record FlakyTestResult =
  test_name_r :: string
  total_runs :: int
  pass_count :: int
  fail_count :: int
  error_count :: int
  skip_count :: int
  flakiness_score :: rat
  classification :: string
  fail_run_ids :: "string list"
  pass_run_ids :: "string list"
  error_messages :: "string list"

record FlakyTestConfig =
  flakiness_threshold :: rat
  min_runs_required :: int
  true_failure_threshold :: rat

definition default_config :: FlakyTestConfig where
  "default_config =
     \<lparr>flakiness_threshold = 0, min_runs_required = 2, true_failure_threshold = 1\<rparr>"

text \<open>
  The values of the \<^verbatim>\<open>metadata\<close> dictionary of a summary; the dictionary itself is an
  association list in insertion order.
\<close>

datatype mval = MInt int | MFloat rat | MDict "(string \<times> mval) list"

record FlakyTestSummary =
  total_tests_analyzed :: int
  flaky_tests :: "FlakyTestResult list"
  true_failures :: "FlakyTestResult list"
  stable_tests :: int
  always_skipped :: int
  overall_flakiness_rate :: rat
  metadata :: "(string \<times> mval) list"

subsection \<open>The classifier\<close>

text \<open>\<^verbatim>\<open>sum(1 for e in execs if p(e))\<close>.\<close>

definition count_where :: "('a \<Rightarrow> bool) \<Rightarrow> 'a list \<Rightarrow> int" where
  "count_where p xs = int (length (filter p xs))"

text \<open>\<^verbatim>\<open>a / b\<close> on ints: \<^verbatim>\<open>ZeroDivisionError\<close> when \<open>b = 0\<close>, else the rounded quotient.\<close>

definition truediv :: "rounding \<Rightarrow> int \<Rightarrow> int \<Rightarrow> exn + rat" where
  "truediv rnd a b =
     (if b = 0 then Inl ZeroDivisionError else Inr (rnd (of_int a / of_int b)))"

text \<open>
  The two rates and the score, computed by the same three statements in both branches
  of \<^verbatim>\<open>_classify_test\<close> that divide: the result is \<open>(fail_rate, pass_rate, flakiness_score)\<close>.
\<close>

definition rates :: "rounding \<Rightarrow> int \<Rightarrow> int \<Rightarrow> int \<Rightarrow> exn + (rat \<times> rat \<times> rat)" where
  "rates rnd combined_fails passes effective_runs =
     (case truediv rnd combined_fails effective_runs of
        Inl e \<Rightarrow> Inl e
      | Inr fail_rate \<Rightarrow>
          (case truediv rnd passes effective_runs of
             Inl e \<Rightarrow> Inl e
           | Inr pass_rate \<Rightarrow> Inr (fail_rate, pass_rate, 2 * min pass_rate fail_rate)))"

text \<open>
  The \<^verbatim>\<open>if\<close>/\<^verbatim>\<open>elif\<close>/\<^verbatim>\<open>else\<close> of \<^verbatim>\<open>_classify_test\<close>: the classification and the
  score, from \<^verbatim>\<open>pass_count\<close>, \<^verbatim>\<open>combined_fails\<close> and \<^verbatim>\<open>effective_runs\<close>.
\<close>

definition decide ::
  "rounding \<Rightarrow> FlakyTestConfig \<Rightarrow> int \<Rightarrow> int \<Rightarrow> int \<Rightarrow> exn + (string \<times> rat)" where
  "decide rnd config passes combined_fails effective_runs =
     (if effective_runs = 0 then Inr (''always_skipped'', 0)
      else if effective_runs < min_runs_required config then
        (let cls =
               (if combined_fails = effective_runs then ''true_failure''
                else if combined_fails = 0 then ''stable''
                else ''flaky'')
         in case rates rnd combined_fails passes effective_runs of
              Inl e \<Rightarrow> Inl e
            | Inr (fail_rate, pass_rate, score) \<Rightarrow>
                Inr (cls, score))
      else
        (case rates rnd combined_fails passes effective_runs of
           Inl e \<Rightarrow> Inl e
         | Inr (fail_rate, pass_rate, score) \<Rightarrow>
             Inr (if fail_rate \<ge> true_failure_threshold config then ''true_failure''
                  else if score > flakiness_threshold config
                          \<and> combined_fails > 0 \<and> passes > 0 then ''flaky''
                  else ''stable'',
                  score)))"

text \<open>
  The dataclass constructor \<^verbatim>\<open>TestExecution(test_name=..., status=..., run_id=...)\<close>, the
  other fields at their defaults.
\<close>

definition new_execution :: "string \<Rightarrow> string \<Rightarrow> string \<Rightarrow> TestExecution" where
  "new_execution name st rid =
     \<lparr>test_name = name, status = st, run_id = rid, duration_seconds = Finite 0,
      error_message = [], timestamp = []\<rparr>"

definition classify_test ::
  "rounding \<Rightarrow> FlakyTestConfig \<Rightarrow> string \<Rightarrow> TestExecution list \<Rightarrow> exn + FlakyTestResult" where
  "classify_test rnd config name execs =
     (let pass_count = count_where (\<lambda>e. status e = ''passed'') execs;
          fail_count = count_where (\<lambda>e. status e = ''failed'') execs;
          error_count = count_where (\<lambda>e. status e = ''error'') execs;
          skip_count = count_where (\<lambda>e. status e = ''skipped'') execs;
          total_runs = int (length execs);
          fail_run_ids = remdups (map run_id (filter
            (\<lambda>e. status e \<in> set [''failed'', ''error''] \<and> run_id e \<noteq> '''') execs));
          pass_run_ids = remdups (map run_id (filter
            (\<lambda>e. status e = ''passed'' \<and> run_id e \<noteq> '''') execs));
          error_messages = remdups (map error_message (filter
            (\<lambda>e. error_message e \<noteq> '''') execs));
          effective_runs = pass_count + fail_count + error_count;
          combined_fails = fail_count + error_count
      in case decide rnd config pass_count combined_fails effective_runs of
           Inl e \<Rightarrow> Inl e
         | Inr (cls, score) \<Rightarrow>
             Inr \<lparr>test_name_r = name,
                  total_runs = total_runs,
                  pass_count = pass_count,
                  fail_count = fail_count,
                  error_count = error_count,
                  skip_count = skip_count,
                  flakiness_score = score,
                  classification = cls,
                  fail_run_ids = fail_run_ids,
                  pass_run_ids = pass_run_ids,
                  error_messages = error_messages\<rparr>)"

text \<open>
  What the theorems about the range of the score need of the rounding of \<^verbatim>\<open>a / b\<close>:
  it is monotone and leaves \<open>0\<close> and \<open>1/2\<close>, both binary64 values, as they are.
  Rounding to nearest is such a function.
\<close>

definition float_rounding :: "rounding \<Rightarrow> bool" where
  "float_rounding rnd \<longleftrightarrow> mono rnd \<and> rnd 0 = 0 \<and> rnd (1 / 2) = 1 / 2"

subsection \<open>The status normalizer\<close>

text \<open>
  \<^verbatim>\<open>str.isspace\<close> of one character, on the code points up to U+00FF: the controls
  U+0009 to U+000D and U+001C to U+001F, the space, U+0085 and U+00A0.
\<close>

definition isspace :: "char \<Rightarrow> bool" where
  "isspace c = (let n = (of_char c :: nat) in
      (9 \<le> n \<and> n \<le> 13) \<or> (28 \<le> n \<and> n \<le> 32) \<or> n = 133 \<or> n = 160)"

text \<open>
  \<^verbatim>\<open>str.lower\<close> of one character, on the code points up to U+00FF: the letters A to Z and
  U+00C0 to U+00DE but the multiplication sign U+00D7 move up by 32.
\<close>

definition lower_char :: "char \<Rightarrow> char" where
  "lower_char c = (let n = (of_char c :: nat) in
      if (65 \<le> n \<and> n \<le> 90) \<or> (192 \<le> n \<and> n \<le> 222 \<and> n \<noteq> 215)
      then char_of (n + 32) else c)"

definition lower :: "string \<Rightarrow> string" where
  "lower s = map lower_char s"

text \<open>\<^verbatim>\<open>str.strip()\<close>: the whitespace at both ends goes.\<close>

definition strip :: "string \<Rightarrow> string" where
  "strip s = rev (dropWhile isspace (rev (dropWhile isspace s)))"

text \<open>\<^verbatim>\<open>_normalize_status\<close>; the source rebinds \<^verbatim>\<open>raw\<close>, the model names the argument \<open>raw0\<close>.\<close>

definition normalize_status :: "string \<Rightarrow> string" where
  "normalize_status raw0 =
     (let raw = lower (strip raw0) in
      if raw \<in> set [''pass'', ''passed'', ''ok'', ''success''] then ''passed''
      else if raw \<in> set [''fail'', ''failed'', ''failure''] then ''failed''
      else if raw \<in> set [''error'', ''errored''] then ''error''
      else if raw \<in> set [''skip'', ''skipped'', ''ignored'', ''pending''] then ''skipped''
      else ''failed'')"

subsection \<open>The analysis entry point\<close>

text \<open>
  \<^verbatim>\<open>grouped[ex.test_name].append(ex)\<close> on the \<^verbatim>\<open>defaultdict(list)\<close>: a dictionary keeps its
  keys in order of insertion, so it is an association list, and a new key goes last.
\<close>

fun grouped_append ::
  "(string \<times> TestExecution list) list \<Rightarrow> TestExecution \<Rightarrow> (string \<times> TestExecution list) list" where
  "grouped_append [] ex = [(test_name ex, [ex])]"
| "grouped_append ((k, v) # g) ex =
     (if k = test_name ex then (k, v @ [ex]) # g else (k, v) # grouped_append g ex)"

definition group_by_name :: "TestExecution list \<Rightarrow> (string \<times> TestExecution list) list" where
  "group_by_name executions = foldl grouped_append [] executions"

text \<open>The loop over \<^verbatim>\<open>grouped.items()\<close>; an exception of \<^verbatim>\<open>_classify_test\<close> ends it.\<close>

fun classify_all ::
  "rounding \<Rightarrow> FlakyTestConfig \<Rightarrow> (string \<times> TestExecution list) list \<Rightarrow> exn + FlakyTestResult list" where
  "classify_all rnd config [] = Inr []"
| "classify_all rnd config ((name, execs) # g) =
     (case classify_test rnd config name execs of
        Inl e \<Rightarrow> Inl e
      | Inr r \<Rightarrow>
          (case classify_all rnd config g of
             Inl e \<Rightarrow> Inl e
           | Inr rs \<Rightarrow> Inr (r # rs)))"

text \<open>
  \<^verbatim>\<open>sorted(xs, key=key, reverse=True)\<close>: the interpreter reverses the list, sorts it
  stably in ascending order and reverses it again, so that equal keys keep their order.
\<close>

definition sorted_reverse :: "('a \<Rightarrow> rat) \<Rightarrow> 'a list \<Rightarrow> 'a list" where
  "sorted_reverse key xs = rev (sort_key key (rev xs))"

definition analyze ::
  "rounding \<Rightarrow> FlakyTestConfig \<Rightarrow> TestExecution list \<Rightarrow> exn + FlakyTestSummary" where
  "analyze rnd config executions =
     (if executions = [] then
        Inr \<lparr>total_tests_analyzed = 0, flaky_tests = [], true_failures = [],
             stable_tests = 0, always_skipped = 0, overall_flakiness_rate = 0,
             metadata = []\<rparr>
      else
        case classify_all rnd config (group_by_name executions) of
          Inl e \<Rightarrow> Inl e
        | Inr results \<Rightarrow>
            (let flaky = sorted_reverse flakiness_score
                           (filter (\<lambda>r. classification r = ''flaky'') results);
                 true_failures = filter (\<lambda>r. classification r = ''true_failure'') results;
                 stable = count_where (\<lambda>r. classification r = ''stable'') results;
                 always_skipped = count_where (\<lambda>r. classification r = ''always_skipped'') results;
                 total = int (length results)
             in case (if total > 0 then truediv rnd (int (length flaky)) total else Inr 0) of
                  Inl e \<Rightarrow> Inl e
                | Inr flakiness_rate \<Rightarrow>
                    (let run_ids = remdups (filter (\<lambda>r. r \<noteq> []) (map run_id executions))
                     in Inr \<lparr>total_tests_analyzed = total,
                             flaky_tests = flaky,
                             true_failures = true_failures,
                             stable_tests = stable,
                             always_skipped = always_skipped,
                             overall_flakiness_rate = flakiness_rate,
                             metadata =
                               [(''total_executions'', MInt (int (length executions))),
                                (''unique_runs'', MInt (int (length run_ids))),
                                (''config'', MDict
                                   [(''flakiness_threshold'', MFloat (flakiness_threshold config)),
                                    (''min_runs_required'', MInt (min_runs_required config)),
                                    (''true_failure_threshold'',
                                       MFloat (true_failure_threshold config))])]\<rparr>)))"

subsection \<open>Files, paths and the library\<close>

text \<open>
  A \<^verbatim>\<open>pathlib.Path\<close> is the list of its parts; \<^verbatim>\<open>name\<close> is the last part. Paths are
  compared part by part, each part by code points, which is how \<^verbatim>\<open>sorted\<close> orders the
  entries of one directory.
\<close>

type_synonym path = "string list"

definition path_name :: "path \<Rightarrow> string" where
  "path_name p = (if p = [] then [] else last p)"

text \<open>
  \<^verbatim>\<open>Path.suffix\<close> and \<^verbatim>\<open>Path.stem\<close>: with \<open>i\<close> the index of the last dot of the
  name (\<^verbatim>\<open>name.rfind('.')\<close>), the name is split at \<open>i\<close> when \<open>0 < i < len(name) - 1\<close>.
\<close>

definition last_dot :: "string \<Rightarrow> nat option" where
  "last_dot name =
     (if CHR ''.'' \<in> set name
      then Some (length name - length (takeWhile (\<lambda>c. c \<noteq> CHR ''.'') (rev name)) - 1)
      else None)"

definition suffix :: "path \<Rightarrow> string" where
  "suffix p =
     (let name = path_name p in
      case last_dot name of
        None \<Rightarrow> []
      | Some i \<Rightarrow> if 0 < i \<and> i < length name - 1 then drop i name else [])"

definition stem :: "path \<Rightarrow> string" where
  "stem p =
     (let name = path_name p in
      case last_dot name of
        None \<Rightarrow> name
      | Some i \<Rightarrow> if 0 < i \<and> i < length name - 1 then take i name else name)"

text \<open>What \<^verbatim>\<open>LOGGER\<close> receives: the level and the format string of each call.\<close>

datatype log_record = WARNING string | INFO string

text \<open>An \<^verbatim>\<open>xml.etree.ElementTree.Element\<close>: tag, attributes, text and child elements.\<close>

datatype element =
  Element (tag: string) (attrib: "(string \<times> string) list") (text_of: "string option")
    (children: "element list")

text \<open>A value decoded by \<^verbatim>\<open>json.load\<close>; a dictionary is an association list.\<close>

datatype json =
    JNull
  | JBool bool
  | JInt int
  | JFloat pyfloat
  | JStr string
  | JList "json list"
  | JDict "(string \<times> json) list"

text \<open>
  The file system and the library functions the parsers call, as the environment of
  the model:
  \<^item> \<open>is_dir\<close>, \<open>is_file\<close>, \<open>iterdir\<close>: the methods of \<^verbatim>\<open>Path\<close>;
  \<^item> \<open>ET_parse\<close>: the root of \<^verbatim>\<open>ET.parse(path)\<close>, or the exception it raises;
  \<^item> \<open>json_load\<close>: the value of \<^verbatim>\<open>json.load\<close> on the opened file, or the exception of
    \<^verbatim>\<open>path.open\<close> or \<^verbatim>\<open>json.load\<close>;
  \<^item> \<open>read_text\<close>: \<^verbatim>\<open>path.read_text(encoding="utf-8", errors="replace")\<close>, or its exception;
  \<^item> \<open>float_of_str\<close>: \<^verbatim>\<open>float(s)\<close> for a string, \<open>None\<close> when it raises \<^verbatim>\<open>ValueError\<close>;
  \<^item> \<open>float_of_int\<close>: \<^verbatim>\<open>float(n)\<close> for an int, \<open>None\<close> when it raises \<^verbatim>\<open>OverflowError\<close>;
  \<^item> \<open>str_of_value\<close>: \<^verbatim>\<open>str(v)\<close> for a decoded value that is not a string.
\<close>

record env =
  is_dir :: "path \<Rightarrow> bool"
  is_file :: "path \<Rightarrow> bool"
  iterdir :: "path \<Rightarrow> path list"
  ET_parse :: "path \<Rightarrow> exn + element"
  json_load :: "path \<Rightarrow> exn + json"
  read_text :: "path \<Rightarrow> exn + string"
  float_of_str :: "string \<Rightarrow> pyfloat option"
  float_of_int :: "int \<Rightarrow> pyfloat option"
  str_of_value :: "json \<Rightarrow> string"

text \<open>A loop that appends one record for each element and that an exception ends.\<close>

fun traverse :: "('a \<Rightarrow> exn + 'b) \<Rightarrow> 'a list \<Rightarrow> exn + 'b list" where
  "traverse f [] = Inr []"
| "traverse f (x # xs) =
     (case f x of
        Inl e \<Rightarrow> Inl e
      | Inr y \<Rightarrow> (case traverse f xs of Inl e \<Rightarrow> Inl e | Inr ys \<Rightarrow> Inr (y # ys)))"

text \<open>\<^verbatim>\<open>run_id or path.stem\<close>.\<close>

definition run_id_or_stem :: "string \<Rightarrow> path \<Rightarrow> string" where
  "run_id_or_stem rid p = (if rid \<noteq> [] then rid else stem p)"

subsection \<open>The JUnit XML parser\<close>

text \<open>\<^verbatim>\<open>Element.get(key, default)\<close>, \<^verbatim>\<open>Element.find(tag)\<close>, \<^verbatim>\<open>Element.findall(tag)\<close>.\<close>

definition element_get :: "element \<Rightarrow> string \<Rightarrow> string \<Rightarrow> string" where
  "element_get e key dflt = (case map_of (attrib e) key of None \<Rightarrow> dflt | Some v \<Rightarrow> v)"

definition element_find :: "element \<Rightarrow> string \<Rightarrow> element option" where
  "element_find e t = find (\<lambda>c. tag c = t) (children e)"

definition element_findall :: "element \<Rightarrow> string \<Rightarrow> element list" where
  "element_findall e t = filter (\<lambda>c. tag c = t) (children e)"

text \<open>\<^verbatim>\<open>Element.findall(".//tag")\<close>: the descendants with that tag, in document order.\<close>

fun descendants :: "element \<Rightarrow> element list" where
  "descendants (Element t a x cs) = concat (map (\<lambda>c. c # descendants c) cs)"

definition element_findall_deep :: "element \<Rightarrow> string \<Rightarrow> element list" where
  "element_findall_deep e t = filter (\<lambda>c. tag c = t) (descendants e)"

text \<open>\<^verbatim>\<open>marker.text or ""\<close>.\<close>

definition text_or_empty :: "element \<Rightarrow> string" where
  "text_or_empty e = (case text_of e of None \<Rightarrow> [] | Some t \<Rightarrow> t)"

text \<open>The body of the loop over the test cases of a suite.\<close>

definition parse_testcase :: "env \<Rightarrow> path \<Rightarrow> string \<Rightarrow> element \<Rightarrow> exn + TestExecution" where
  "parse_testcase env p rid tc =
     (let name = element_get tc ''name'' ''unknown'';
          classname = element_get tc ''classname'' [];
          full_name = (if classname \<noteq> [] then classname @ ''::'' @ name else name);
          time = element_get tc ''time'' ''0''
      in case float_of_str env (if time \<noteq> [] then time else ''0'') of
           None \<Rightarrow> Inl ValueError
         | Some duration \<Rightarrow>
             (let failure = element_find tc ''failure'';
                  error = element_find tc ''error'';
                  skipped = element_find tc ''skipped'';
                  (st, msg) =
                    (case failure of
                       Some f \<Rightarrow> (''failed'', element_get f ''message'' (text_or_empty f))
                     | None \<Rightarrow>
                        (case error of
                           Some e \<Rightarrow> (''error'', element_get e ''message'' (text_or_empty e))
                         | None \<Rightarrow>
                            (case skipped of
                               Some s \<Rightarrow> (''skipped'', element_get s ''message'' [])
                             | None \<Rightarrow> (''passed'', []))))
              in Inr \<lparr>test_name = full_name,
                      status = st,
                      run_id = run_id_or_stem rid p,
                      duration_seconds = duration,
                      error_message = take 500 msg,
                      timestamp = []\<rparr>))"

definition parse_junit_xml ::
  "env \<Rightarrow> path \<Rightarrow> string \<Rightarrow> exn + (TestExecution list \<times> log_record list)" where
  "parse_junit_xml env p rid =
     (case ET_parse env p of
        Inl e \<Rightarrow>
          if e = ParseError then Inr ([], [WARNING ''Failed to parse JUnit XML %s: %s''])
          else Inl e
      | Inr xml_root \<Rightarrow>
          (let suites0 = (if tag xml_root = ''testsuites''
                          then element_findall_deep xml_root ''testsuite'' else [xml_root]);
               suites = (if tag xml_root = ''testsuite'' then [xml_root] else suites0)
           in case traverse (parse_testcase env p rid)
                     (concat (map (\<lambda>suite. element_findall suite ''testcase'') suites)) of
                Inl e \<Rightarrow> Inl e
              | Inr executions \<Rightarrow> Inr (executions, [])))"

subsection \<open>The JSON parser\<close>

text \<open>The truth value of a decoded value, \<^verbatim>\<open>d.get(key, default)\<close> and \<^verbatim>\<open>a or b\<close>.\<close>

fun truthy :: "json \<Rightarrow> bool" where
  "truthy JNull = False"
| "truthy (JBool b) = b"
| "truthy (JInt n) = (n \<noteq> 0)"
| "truthy (JFloat f) = (f \<noteq> Finite 0)"
| "truthy (JStr s) = (s \<noteq> [])"
| "truthy (JList l) = (l \<noteq> [])"
| "truthy (JDict d) = (d \<noteq> [])"

definition dict_get :: "(string \<times> json) list \<Rightarrow> string \<Rightarrow> json \<Rightarrow> json" where
  "dict_get d key dflt = (case map_of d key of None \<Rightarrow> dflt | Some v \<Rightarrow> v)"

definition py_or :: "json \<Rightarrow> json \<Rightarrow> json" where
  "py_or a b = (if truthy a then a else b)"

text \<open>\<^verbatim>\<open>float(v)\<close> and \<^verbatim>\<open>str(v)\<close> of a decoded value.\<close>

fun py_float :: "env \<Rightarrow> json \<Rightarrow> exn + pyfloat" where
  "py_float env (JStr s) = (case float_of_str env s of None \<Rightarrow> Inl ValueError | Some f \<Rightarrow> Inr f)"
| "py_float env (JInt n) = (case float_of_int env n of None \<Rightarrow> Inl OverflowError | Some f \<Rightarrow> Inr f)"
| "py_float env (JFloat f) = Inr f"
| "py_float env (JBool b) = Inr (Finite (if b then 1 else 0))"
| "py_float env JNull = Inl TypeError"
| "py_float env (JList l) = Inl TypeError"
| "py_float env (JDict d) = Inl TypeError"

definition py_str :: "env \<Rightarrow> json \<Rightarrow> string" where
  "py_str env v = (case v of JStr s \<Rightarrow> s | _ \<Rightarrow> str_of_value env v)"

text \<open>
  The body of the loop over the records, for a record that is a dictionary. The source
  stores whatever value the name keys hold; the dataclass declares \<^verbatim>\<open>test_name: str\<close>,
  and the model's record holds a string, so a name that is not a string ends the model
  with \<open>IllTyped\<close>, which stands for no exception of the source.
\<close>

definition parse_json_record ::
  "env \<Rightarrow> path \<Rightarrow> string \<Rightarrow> (string \<times> json) list \<Rightarrow> exn + TestExecution" where
  "parse_json_record env p rid record =
     (let name = py_or (py_or (dict_get record ''name'' JNull) (dict_get record ''test_name'' JNull))
                   (dict_get record ''testName'' (JStr ''unknown''));
          raw_status = lower (py_str env
                         (py_or (dict_get record ''status'' JNull)
                            (dict_get record ''result'' (JStr ''unknown''))));
          st = normalize_status raw_status
      in case py_float env (py_or (dict_get record ''duration'' (JInt 0)) (JInt 0)) of
           Inl e \<Rightarrow> Inl e
         | Inr duration \<Rightarrow>
             (case name of
                JStr n \<Rightarrow>
                  Inr \<lparr>test_name = n,
                       status = st,
                       run_id = run_id_or_stem rid p,
                       duration_seconds = duration,
                       error_message = take 500 (py_str env
                         (py_or (dict_get record ''message'' JNull)
                            (dict_get record ''error_message'' (JStr [])))),
                       timestamp = py_str env (dict_get record ''timestamp'' (JStr []))\<rparr>
              | _ \<Rightarrow> Inl IllTyped))"

text \<open>\<^verbatim>\<open>if not isinstance(record, dict): continue\<close>.\<close>

fun dicts_of :: "json list \<Rightarrow> (string \<times> json) list list" where
  "dicts_of [] = []"
| "dicts_of (JDict d # vs) = d # dicts_of vs"
| "dicts_of (v # vs) = dicts_of vs"

definition parse_json_results ::
  "env \<Rightarrow> path \<Rightarrow> string \<Rightarrow> exn + (TestExecution list \<times> log_record list)" where
  "parse_json_results env p rid =
     (case json_load env p of
        Inl e \<Rightarrow>
          if e = JSONDecodeError \<or> e = OSError
          then Inr ([], [WARNING ''Failed to parse JSON results %s: %s''])
          else Inl e
      | Inr data \<Rightarrow>
          (case (case data of
                   JList l \<Rightarrow> Inr data
                 | JDict d \<Rightarrow> Inr (dict_get d ''test_results'' (dict_get d ''tests'' (JList [])))
                 | _ \<Rightarrow> Inl AttributeError) of
             Inl e \<Rightarrow> Inl e
           | Inr records \<Rightarrow>
               (case records of
                  JList rs \<Rightarrow>
                    (case traverse (parse_json_record env p rid) (dicts_of rs) of
                       Inl e \<Rightarrow> Inl e
                     | Inr executions \<Rightarrow> Inr (executions, []))
                | _ \<Rightarrow> Inr ([], [WARNING ''Unexpected JSON structure in %s'']))))"

subsection \<open>The free-text parser\<close>

text \<open>
  \<^verbatim>\<open>_TEXT_RESULT_RE\<close>, matched at the head of a string. The regular expression engine
  tries the alternatives in order and the optional group first with, then without its
  letters, which is the order of \<open>status_words\<close>; under \<^verbatim>\<open>IGNORECASE\<close> a letter matches
  in either case. After the word, \<^verbatim>\<open>\s+\<close> takes every whitespace character that follows
  and needs one, and \<^verbatim>\<open>\S+\<close> every other character that follows and needs one; giving
  back whitespace would leave \<^verbatim>\<open>\S+\<close> at a whitespace character, so nothing else can
  match. The result is the status group, the name group and the text after the match.
\<close>

definition status_words :: "string list" where
  "status_words = [''PASSED'', ''PASS'', ''FAILED'', ''FAIL'', ''ERROR'', ''SKIPPED'', ''SKIP'']"

definition match_word :: "string \<Rightarrow> string \<Rightarrow> (string \<times> string \<times> string) option" where
  "match_word s w =
     (let n = length w;
          rest = drop n s;
          after = dropWhile isspace rest;
          name = takeWhile (\<lambda>c. \<not> isspace c) after
      in if lower (take n s) = lower w \<and> takeWhile isspace rest \<noteq> [] \<and> name \<noteq> []
         then Some (take n s, name, dropWhile (\<lambda>c. \<not> isspace c) after)
         else None)"

fun first_match :: "string \<Rightarrow> string list \<Rightarrow> (string \<times> string \<times> string) option" where
  "first_match s [] = None"
| "first_match s (w # ws) =
     (case match_word s w of Some m \<Rightarrow> Some m | None \<Rightarrow> first_match s ws)"

definition match_here :: "string \<Rightarrow> (string \<times> string \<times> string) option" where
  "match_here s = first_match s status_words"

lemma match_word_shorter:
  "match_word s w = Some (st, name, rest) \<Longrightarrow> length rest < length s"
proof -
  assume m: "match_word s w = Some (st, name, rest)"
  let ?r = "drop (length w) s"
  let ?a = "dropWhile isspace ?r"
  from m have ne: "takeWhile isspace ?r \<noteq> []"
    and rest: "rest = dropWhile (\<lambda>c. \<not> isspace c) ?a"
    by (auto simp add: match_word_def Let_def split: if_splits)
  have "length rest \<le> length ?a" by (simp add: rest length_dropWhile_le)
  moreover have "length ?a < length ?r"
  proof -
    have "length (takeWhile isspace ?r) + length ?a = length ?r"
      by (metis length_append takeWhile_dropWhile_id)
    moreover have "0 < length (takeWhile isspace ?r)" using ne by simp
    ultimately show ?thesis by linarith
  qed
  moreover have "length ?r \<le> length s" by simp
  ultimately show ?thesis by linarith
qed

lemma first_match_shorter:
  "first_match s ws = Some (st, name, rest) \<Longrightarrow> length rest < length s"
  by (induction ws) (auto split: option.splits dest: match_word_shorter)

text \<open>
  \<^verbatim>\<open>_TEXT_RESULT_RE.finditer(content)\<close>: the matches from left to right, each search
  starting where the match before it ended; the status and the name group of each.
\<close>

function finditer :: "string \<Rightarrow> (string \<times> string) list" where
  "finditer [] = []"
| "finditer (c # cs) =
     (case match_here (c # cs) of
        Some (st, name, rest) \<Rightarrow> (st, name) # finditer rest
      | None \<Rightarrow> finditer cs)"
  by pat_completeness auto
termination
  by (relation "measure length") (auto simp add: match_here_def dest: first_match_shorter)

definition parse_text_log ::
  "env \<Rightarrow> path \<Rightarrow> string \<Rightarrow> exn + (TestExecution list \<times> log_record list)" where
  "parse_text_log env p rid =
     (case read_text env p of
        Inl e \<Rightarrow>
          if e = OSError then Inr ([], [WARNING ''Failed to read log file %s: %s''])
          else Inl e
      | Inr content \<Rightarrow>
          Inr (map (\<lambda>(st, name).
                 (let raw_status = lower st; st' = normalize_status raw_status
                  in new_execution name st' (run_id_or_stem rid p)))
               (finditer content), []))"

subsection \<open>Successive matches, as the amended claim on the free-text parser words them\<close>



subsection \<open>The directory loader\<close>

definition auto_detect_and_parse ::
  "env \<Rightarrow> path \<Rightarrow> string \<Rightarrow> exn + (TestExecution list \<times> log_record list)" where
  "auto_detect_and_parse env p rid =
     (let sfx = lower (suffix p) in
      if sfx = ''.xml'' then parse_junit_xml env p rid
      else if sfx = ''.json'' then parse_json_results env p rid
      else parse_text_log env p rid)"

text \<open>
  The loop over the sorted entries of one directory, with the run identifier the
  loader passes on (empty in a flat directory).
\<close>

fun load_files ::
  "env \<Rightarrow> string \<Rightarrow> path list \<Rightarrow> exn + (TestExecution list \<times> log_record list)" where
  "load_files env rid [] = Inr ([], [])"
| "load_files env rid (file_path # fs) =
     (if is_file env file_path
         \<and> lower (suffix file_path) \<in> set [''.xml'', ''.json'', ''.log'', ''.txt'']
      then case auto_detect_and_parse env file_path rid of
             Inl e \<Rightarrow> Inl e
           | Inr (recs, logs) \<Rightarrow>
               (case load_files env rid fs of
                  Inl e \<Rightarrow> Inl e
                | Inr (recs', logs') \<Rightarrow> Inr (recs @ recs', logs @ logs'))
      else load_files env rid fs)"

text \<open>The loop over the sorted subdirectories.\<close>

fun load_subdirs ::
  "env \<Rightarrow> path list \<Rightarrow> exn + (TestExecution list \<times> log_record list)" where
  "load_subdirs env [] = Inr ([], [])"
| "load_subdirs env (subdir # ds) =
     (case load_files env (path_name subdir) (sort (iterdir env subdir)) of
        Inl e \<Rightarrow> Inl e
      | Inr (recs, logs) \<Rightarrow>
          (case load_subdirs env ds of
             Inl e \<Rightarrow> Inl e
           | Inr (recs', logs') \<Rightarrow> Inr (recs @ recs', logs @ logs')))"

definition load_results_from_directory ::
  "env \<Rightarrow> path \<Rightarrow> exn + (TestExecution list \<times> log_record list)" where
  "load_results_from_directory env directory =
     (if \<not> is_dir env directory
      then Inr ([], [WARNING ''Test results directory does not exist: %s''])
      else
        (let subdirs = sort (filter (is_dir env) (iterdir env directory)) in
         case (if subdirs \<noteq> [] then load_subdirs env subdirs
               else load_files env [] (sort (iterdir env directory))) of
           Inl e \<Rightarrow> Inl e
         | Inr (all_executions, logs) \<Rightarrow>
             Inr (all_executions, logs @ [INFO ''Loaded %d test executions from %s''])))"

subsection \<open>An example environment\<close>

text \<open>
  A small file system on which the theorems below are instantiated: a directory
  \<^verbatim>\<open>results\<close> with the runs \<^verbatim>\<open>run_a\<close> (a JUnit report and a file the loader ignores) and
  \<^verbatim>\<open>run_b\<close> (a log and a JSON file), and next to it a report with a time attribute that
  is no number and three one-line logs. \<open>float_of_str\<close> is \<^verbatim>\<open>float\<close> on the strings
  that occur in these files, \<open>float_of_int\<close> on small ints; no decoded value but
  strings is turned into a string.
\<close>

definition example_suite :: element where
  "example_suite =
     Element ''testsuite'' [(''name'', ''auth'')] None
       [Element ''testcase''
          [(''classname'', ''auth''), (''name'', ''test_login''), (''time'', ''0.25'')] None [],
        Element ''testcase'' [(''name'', ''test_sso'')] None
          [Element ''skipped'' [(''message'', ''not on CI'')] None []]]"

definition bad_time_suite :: element where
  "bad_time_suite =
     Element ''testsuite'' [] None
       [Element ''testcase'' [(''name'', ''t''), (''time'', ''abc'')] None []]"

definition example_env :: env where
  "example_env =
     \<lparr>is_dir = (\<lambda>p. p \<in> set [[''results''], [''results'', ''run_a''], [''results'', ''run_b'']]),
      is_file = (\<lambda>p. p \<in> set [[''results'', ''run_a'', ''report.xml''],
                                [''results'', ''run_a'', ''notes.md''],
                                [''results'', ''run_b'', ''out.log''],
                                [''results'', ''run_b'', ''results.json''],
                                [''bad.xml''], [''ci.log''], [''bypass.log''], [''wrapped.log'']]),
      iterdir = (\<lambda>p.
        if p = [''results''] then [[''results'', ''run_b''], [''results'', ''run_a'']]
        else if p = [''results'', ''run_a'']
          then [[''results'', ''run_a'', ''report.xml''], [''results'', ''run_a'', ''notes.md'']]
        else if p = [''results'', ''run_b'']
          then [[''results'', ''run_b'', ''results.json''], [''results'', ''run_b'', ''out.log'']]
        else []),
      ET_parse = (\<lambda>p.
        if p = [''results'', ''run_a'', ''report.xml''] then Inr example_suite
        else if p = [''bad.xml''] then Inr bad_time_suite
        else Inl OSError),
      json_load = (\<lambda>p.
        if p = [''results'', ''run_b'', ''results.json'']
        then Inr (JList [JDict [(''name'', JStr ''auth::test_login''), (''status'', JStr ''ok'')]])
        else Inl OSError),
      read_text = (\<lambda>p.
        if p = [''results'', ''run_b'', ''out.log''] then Inr ''FAILED auth::test_logout''
        else if p = [''ci.log''] then Inr ''PASS a FAIL b''
        else if p = [''bypass.log''] then Inr ''BYPASS foo''
        else if p = [''wrapped.log''] then Inr (''PASS'' @ [CHR 0x0A] @ ''foo'')
        else Inl OSError),
      float_of_str = (\<lambda>s.
        if s = ''0'' then Some (Finite 0)
        else if s = ''0.25'' then Some (Finite (1 / 4))
        else None),
      float_of_int = (\<lambda>n. Some (Finite (of_int n))),
      str_of_value = (\<lambda>v. [])\<rparr>"

section \<open>Properties\<close>

subsection \<open>The classifier\<close>

lemma rates_Inr:
  "effective_runs \<noteq> 0 \<Longrightarrow>
   rates rnd cf p effective_runs =
     Inr (rnd (of_int cf / of_int effective_runs), rnd (of_int p / of_int effective_runs),
          2 * min (rnd (of_int p / of_int effective_runs)) (rnd (of_int cf / of_int effective_runs)))"
  by (simp add: rates_def truediv_def)

lemma float_rounding_id: "float_rounding (\<lambda>x. x)"
  by (simp add: float_rounding_def mono_def)

lemma score_bounds:
  assumes r: "float_rounding rnd" and p: "0 \<le> p" and c: "0 \<le> c" and e: "p + c = e" "e \<noteq> 0"
  shows "0 \<le> 2 * min (rnd (of_int p / of_int e)) (rnd (of_int c / of_int e))"
    and "2 * min (rnd (of_int p / of_int e)) (rnd (of_int c / of_int e)) \<le> 1"
proof -
  have m: "mono rnd" and z: "rnd 0 = 0" and h: "rnd (1 / 2) = 1 / 2"
    using r by (simp_all add: float_rounding_def)
  have epos: "0 < e" using p c e by linarith
  let ?a = "(of_int p / of_int e) :: rat" and ?b = "(of_int c / of_int e) :: rat"
  have a0: "0 \<le> ?a" and b0: "0 \<le> ?b" using p c epos by simp_all
  have "rnd 0 \<le> rnd ?a" using a0 by (rule monoD [OF m])
  moreover have "rnd 0 \<le> rnd ?b" using b0 by (rule monoD [OF m])
  ultimately show "0 \<le> 2 * min (rnd ?a) (rnd ?b)" using z by simp
  have sum: "?a + ?b = 1"
  proof -
    have "?a + ?b = (of_int p + of_int c) / of_int e" by (simp add: add_divide_distrib)
    also have "\<dots> = of_int e / of_int e" using e by simp
    also have "\<dots> = 1" using epos by simp
    finally show ?thesis .
  qed
  then have "?a \<le> 1 / 2 \<or> ?b \<le> 1 / 2" by linarith
  then show "2 * min (rnd ?a) (rnd ?b) \<le> 1"
  proof
    assume "?a \<le> 1 / 2"
    then have "rnd ?a \<le> rnd (1 / 2)" by (rule monoD [OF m])
    then show ?thesis using h by (simp add: min_def)
  next
    assume "?b \<le> 1 / 2"
    then have "rnd ?b \<le> rnd (1 / 2)" by (rule monoD [OF m])
    then show ?thesis using h by (simp add: min_def)
  qed
qed

lemma count_partition:
  assumes "\<forall>e \<in> set execs. status e \<in> {''passed'', ''failed'', ''error'', ''skipped''}"
  shows "count_where (\<lambda>e. status e = ''passed'') execs
       + count_where (\<lambda>e. status e = ''failed'') execs
       + count_where (\<lambda>e. status e = ''error'') execs
       + count_where (\<lambda>e. status e = ''skipped'') execs = int (length execs)"
  using assms by (induction execs) (auto simp: count_where_def)

lemma count_where_nonneg: "0 \<le> count_where p xs"
  by (simp add: count_where_def)

text \<open>
  Claim C1. A group with \<open>effective_runs = pass_count + fail_count + error_count\<close> at least
  \<open>min_runs_required\<close> and positive is classified without an exception; its score is
  \<open>2 * min(pass_count / effective_runs, combined_fails / effective_runs)\<close>, the divisions
  being the interpreter's; it is a true failure when the fail rate reaches
  \<open>true_failure_threshold\<close>, else flaky when the score exceeds \<open>flakiness_threshold\<close> and it
  has both a failing and a passing run, else stable.
\<close>

theorem classify_sufficient_samples:
  fixes rnd config name execs
  defines "p \<equiv> count_where (\<lambda>e. status e = ''passed'') execs"
    and "cf \<equiv> count_where (\<lambda>e. status e = ''failed'') execs
                + count_where (\<lambda>e. status e = ''error'') execs"
  defines "eff \<equiv> p + cf"
  defines "fail_rate \<equiv> rnd (of_int cf / of_int eff)"
    and "pass_rate \<equiv> rnd (of_int p / of_int eff)"
  assumes "eff \<ge> min_runs_required config" and "eff > 0"
  shows "\<exists>r. classify_test rnd config name execs = Inr r
           \<and> flakiness_score r = 2 * min pass_rate fail_rate
           \<and> classification r =
               (if fail_rate \<ge> true_failure_threshold config then ''true_failure''
                else if flakiness_score r > flakiness_threshold config \<and> cf > 0 \<and> p > 0
                then ''flaky'' else ''stable'')"
  using assms
  by (simp add: classify_test_def decide_def rates_Inr Let_def add.assoc)

text \<open>
  The first scenario of the specification: passed, passed, failed, passed, failed in five
  runs under the default configuration is flaky with score \<open>4/5\<close>.
\<close>

theorem classify_sufficient_samples_witness:
  "\<exists>r. classify_test (\<lambda>x. x) default_config ''t''
          [new_execution ''t'' ''passed'' ''r1'', new_execution ''t'' ''passed'' ''r2'',
           new_execution ''t'' ''failed'' ''r3'', new_execution ''t'' ''passed'' ''r4'',
           new_execution ''t'' ''failed'' ''r5''] = Inr r
       \<and> flakiness_score r = 4 / 5 \<and> classification r = ''flaky''"
proof -
  let ?execs = "[new_execution ''t'' ''passed'' ''r1'', new_execution ''t'' ''passed'' ''r2'',
           new_execution ''t'' ''failed'' ''r3'', new_execution ''t'' ''passed'' ''r4'',
           new_execution ''t'' ''failed'' ''r5'']"
  have c: "count_where (\<lambda>e. status e = ''passed'') ?execs = 3"
    "count_where (\<lambda>e. status e = ''failed'') ?execs = 2"
    "count_where (\<lambda>e. status e = ''error'') ?execs = 0"
    by (simp_all add: count_where_def new_execution_def)
  have h1: "min_runs_required default_config
      \<le> count_where (\<lambda>e. status e = ''passed'') ?execs
        + (count_where (\<lambda>e. status e = ''failed'') ?execs
           + count_where (\<lambda>e. status e = ''error'') ?execs)"
    by (simp add: c default_config_def)
  have h2: "0 < count_where (\<lambda>e. status e = ''passed'') ?execs
        + (count_where (\<lambda>e. status e = ''failed'') ?execs
           + count_where (\<lambda>e. status e = ''error'') ?execs)"
    by (simp add: c)
  from classify_sufficient_samples [OF h1 h2, of "\<lambda>x. x" "''t''"]
  show ?thesis by (auto simp add: c default_config_def split: if_splits)
qed

text \<open>
  Claim C2. A group is always classified without an exception. With no effective run it
  is \<open>always_skipped\<close> with score \<open>0\<close>. With fewer effective runs than
  \<open>min_runs_required\<close> (and at least one) it is a true failure exactly when every
  effective run failed or errored, stable exactly when none did, flaky otherwise, and
  the result is the same whatever the two thresholds of the configuration are.
\<close>

theorem classify_low_confidence:
  fixes rnd config name execs
  defines "p \<equiv> count_where (\<lambda>e. status e = ''passed'') execs"
    and "cf \<equiv> count_where (\<lambda>e. status e = ''failed'') execs
                + count_where (\<lambda>e. status e = ''error'') execs"
  defines "eff \<equiv> p + cf"
  shows "\<exists>r. classify_test rnd config name execs = Inr r
           \<and> (eff = 0 \<longrightarrow> classification r = ''always_skipped'' \<and> flakiness_score r = 0)
           \<and> (0 < eff \<and> eff < min_runs_required config \<longrightarrow>
                  (classification r = ''true_failure'' \<longleftrightarrow> cf = eff)
                \<and> (classification r = ''stable'' \<longleftrightarrow> cf = 0)
                \<and> (classification r = ''flaky'' \<longleftrightarrow> cf \<noteq> eff \<and> cf \<noteq> 0)
                \<and> (\<forall>ft tft. classify_test rnd
                       (config\<lparr>flakiness_threshold := ft, true_failure_threshold := tft\<rparr>)
                       name execs = Inr r))"
  unfolding p_def cf_def eff_def
  by (simp add: classify_test_def decide_def rates_Inr Let_def add.assoc)

text \<open>
  The third and fourth scenarios of the specification (one passing run: stable; three
  skipped runs: always skipped), and a low-confidence group that stays a true failure
  under thresholds that would otherwise call it stable.
\<close>

theorem classify_low_confidence_witness:
  "(\<exists>r. classify_test (\<lambda>x. x) default_config ''t'' [new_execution ''t'' ''passed'' ''r1''] = Inr r
        \<and> classification r = ''stable'')
   \<and> (\<exists>r. classify_test (\<lambda>x. x) default_config ''t''
          [new_execution ''t'' ''skipped'' ''r1'', new_execution ''t'' ''skipped'' ''r2'',
           new_execution ''t'' ''skipped'' ''r3''] = Inr r
        \<and> classification r = ''always_skipped'' \<and> flakiness_score r = 0)
   \<and> (\<exists>r. classify_test (\<lambda>x. x)
          (default_config\<lparr>flakiness_threshold := 5, true_failure_threshold := 7\<rparr>) ''t''
          [new_execution ''t'' ''failed'' ''r1''] = Inr r
        \<and> classification r = ''true_failure'')"
proof -
  have c1: "count_where (\<lambda>e. status e = ''passed'') [new_execution ''t'' ''passed'' ''r1''] = 1"
    "count_where (\<lambda>e. status e = ''failed'') [new_execution ''t'' ''passed'' ''r1''] = 0"
    "count_where (\<lambda>e. status e = ''error'') [new_execution ''t'' ''passed'' ''r1''] = 0"
    by (simp_all add: count_where_def new_execution_def)
  have c2: "count_where (\<lambda>e. status e = ''passed'')
       [new_execution ''t'' ''skipped'' ''r1'', new_execution ''t'' ''skipped'' ''r2'',
        new_execution ''t'' ''skipped'' ''r3''] = 0"
    "count_where (\<lambda>e. status e = ''failed'')
       [new_execution ''t'' ''skipped'' ''r1'', new_execution ''t'' ''skipped'' ''r2'',
        new_execution ''t'' ''skipped'' ''r3''] = 0"
    "count_where (\<lambda>e. status e = ''error'')
       [new_execution ''t'' ''skipped'' ''r1'', new_execution ''t'' ''skipped'' ''r2'',
        new_execution ''t'' ''skipped'' ''r3''] = 0"
    by (simp_all add: count_where_def new_execution_def)
  have c3: "count_where (\<lambda>e. status e = ''passed'') [new_execution ''t'' ''failed'' ''r1''] = 0"
    "count_where (\<lambda>e. status e = ''failed'') [new_execution ''t'' ''failed'' ''r1''] = 1"
    "count_where (\<lambda>e. status e = ''error'') [new_execution ''t'' ''failed'' ''r1''] = 0"
    by (simp_all add: count_where_def new_execution_def)
  from classify_low_confidence
    [of "\<lambda>x. x" default_config "''t''" "[new_execution ''t'' ''passed'' ''r1'']"]
  have a: "\<exists>r. classify_test (\<lambda>x. x) default_config ''t''
      [new_execution ''t'' ''passed'' ''r1''] = Inr r \<and> classification r = ''stable''"
    by (auto simp add: c1 default_config_def)
  from classify_low_confidence
    [of "\<lambda>x. x" default_config "''t''"
       "[new_execution ''t'' ''skipped'' ''r1'', new_execution ''t'' ''skipped'' ''r2'',
         new_execution ''t'' ''skipped'' ''r3'']"]
  have b: "\<exists>r. classify_test (\<lambda>x. x) default_config ''t''
      [new_execution ''t'' ''skipped'' ''r1'', new_execution ''t'' ''skipped'' ''r2'',
       new_execution ''t'' ''skipped'' ''r3''] = Inr r
      \<and> classification r = ''always_skipped'' \<and> flakiness_score r = 0"
    by (auto simp add: c2)
  from classify_low_confidence
    [of "\<lambda>x. x" default_config "''t''" "[new_execution ''t'' ''failed'' ''r1'']"]
  have c: "\<exists>r. classify_test (\<lambda>x. x)
      (default_config\<lparr>flakiness_threshold := 5, true_failure_threshold := 7\<rparr>) ''t''
      [new_execution ''t'' ''failed'' ''r1''] = Inr r \<and> classification r = ''true_failure''"
    by (auto simp add: c3 default_config_def)
  from a b c show ?thesis by blast
qed

text \<open>
  Claim C4. A group whose statuses are all canonical is classified without an exception,
  the four counts of the result add up to \<open>total_runs\<close>, and the score lies between
  \<open>0\<close> and \<open>1\<close>; for the score, the division rounds as a float division does.
\<close>

theorem classify_counts_and_score_range:
  assumes "\<forall>e \<in> set execs. status e \<in> {''passed'', ''failed'', ''error'', ''skipped''}"
    and "float_rounding rnd"
  shows "\<exists>r. classify_test rnd config name execs = Inr r
           \<and> pass_count r + fail_count r + error_count r + skip_count r = total_runs r
           \<and> 0 \<le> flakiness_score r \<and> flakiness_score r \<le> 1"
proof -
  let ?p = "count_where (\<lambda>e. status e = ''passed'') execs"
  let ?f = "count_where (\<lambda>e. status e = ''failed'') execs"
  let ?e = "count_where (\<lambda>e. status e = ''error'') execs"
  let ?eff = "?p + ?f + ?e"
  have cp: "0 \<le> ?p" and cc: "0 \<le> ?f + ?e" by (simp_all add: count_where_nonneg)
  have sb: "?eff \<noteq> 0 \<Longrightarrow>
      0 \<le> 2 * min (rnd (of_int ?p / of_int ?eff)) (rnd (of_int (?f + ?e) / of_int ?eff))
    \<and> 2 * min (rnd (of_int ?p / of_int ?eff)) (rnd (of_int (?f + ?e) / of_int ?eff)) \<le> 1"
    using score_bounds [OF assms(2) cp cc, of ?eff] by (simp add: add.assoc)
  show ?thesis
    using count_partition [OF assms(1)] sb
    by (simp add: classify_test_def decide_def rates_Inr Let_def)
qed

theorem classify_counts_and_score_range_witness:
  "\<exists>r. classify_test (\<lambda>x. x) default_config ''t''
          [new_execution ''t'' ''passed'' ''r1'', new_execution ''t'' ''error'' ''r2'',
           new_execution ''t'' ''skipped'' ''r3'', new_execution ''t'' ''failed'' ''r4''] = Inr r
       \<and> pass_count r + fail_count r + error_count r + skip_count r = total_runs r
       \<and> 0 \<le> flakiness_score r \<and> flakiness_score r \<le> 1"
proof -
  have h: "\<forall>e \<in> set [new_execution ''t'' ''passed'' ''r1'', new_execution ''t'' ''error'' ''r2'',
           new_execution ''t'' ''skipped'' ''r3'', new_execution ''t'' ''failed'' ''r4''].
        status e \<in> {''passed'', ''failed'', ''error'', ''skipped''}"
    by (simp add: new_execution_def)
  from classify_counts_and_score_range [OF h float_rounding_id]
  show ?thesis .
qed

subsection \<open>The status normalizer\<close>

lemma canonical_fixed:
  "lower (strip ''passed'') = ''passed''" "lower (strip ''failed'') = ''failed''"
  "lower (strip ''error'') = ''error''" "lower (strip ''skipped'') = ''skipped''"
  by (simp_all add: lower_def strip_def isspace_def lower_char_def)

lemma normalize_canonical: "normalize_status raw \<in> {''passed'', ''failed'', ''error'', ''skipped''}"
  by (simp add: normalize_status_def Let_def)

lemma normalize_fixed:
  "normalize_status ''passed'' = ''passed''" "normalize_status ''failed'' = ''failed''"
  "normalize_status ''error'' = ''error''" "normalize_status ''skipped'' = ''skipped''"
  by (simp_all add: normalize_status_def canonical_fixed Let_def)

lemma normalize_idem: "normalize_status (normalize_status raw) = normalize_status raw"
  using normalize_canonical [of raw] normalize_fixed
  by (elim insertE emptyE) simp_all

text \<open>
  Claim C6. The normalizer returns one of the four canonical statuses on every string:
  with \<open>s\<close> the trimmed, lower-cased input, \<open>passed\<close> for \<open>s\<close> among pass, passed, ok,
  success; \<open>failed\<close> for fail, failed, failure; \<open>error\<close> for error, errored; \<open>skipped\<close> for
  skip, skipped, ignored, pending; \<open>failed\<close> for every other \<open>s\<close>, the empty string
  included. Normalizing its own output changes nothing.
\<close>

theorem normalize_status_total_idempotent:
  "(lower (strip raw) \<in> {''pass'', ''passed'', ''ok'', ''success''} \<longrightarrow> normalize_status raw = ''passed'')
 \<and> (lower (strip raw) \<in> {''fail'', ''failed'', ''failure''} \<longrightarrow> normalize_status raw = ''failed'')
 \<and> (lower (strip raw) \<in> {''error'', ''errored''} \<longrightarrow> normalize_status raw = ''error'')
 \<and> (lower (strip raw) \<in> {''skip'', ''skipped'', ''ignored'', ''pending''} \<longrightarrow> normalize_status raw = ''skipped'')
 \<and> (lower (strip raw) \<notin> {''pass'', ''passed'', ''ok'', ''success'', ''fail'', ''failed'', ''failure'',
        ''error'', ''errored'', ''skip'', ''skipped'', ''ignored'', ''pending''} \<longrightarrow> normalize_status raw = ''failed'')
 \<and> normalize_status [] = ''failed''
 \<and> normalize_status raw \<in> {''passed'', ''failed'', ''error'', ''skipped''}
 \<and> normalize_status (normalize_status raw) = normalize_status raw"
proof -
  have e: "normalize_status [] = ''failed''"
    by (simp add: normalize_status_def lower_def strip_def)
  have m1: "lower (strip raw) \<in> {''pass'', ''passed'', ''ok'', ''success''} \<longrightarrow> normalize_status raw = ''passed''"
    by (simp add: normalize_status_def Let_def)
  have m2: "lower (strip raw) \<in> {''fail'', ''failed'', ''failure''} \<longrightarrow> normalize_status raw = ''failed''"
    by (simp add: normalize_status_def Let_def)
  have m3: "lower (strip raw) \<in> {''error'', ''errored''} \<longrightarrow> normalize_status raw = ''error''"
    by (auto simp add: normalize_status_def Let_def)
  have m4: "lower (strip raw) \<in> {''skip'', ''skipped'', ''ignored'', ''pending''} \<longrightarrow> normalize_status raw = ''skipped''"
    by (auto simp add: normalize_status_def Let_def)
  have m5: "lower (strip raw) \<notin> {''pass'', ''passed'', ''ok'', ''success'', ''fail'', ''failed'', ''failure'',
        ''error'', ''errored'', ''skip'', ''skipped'', ''ignored'', ''pending''} \<longrightarrow> normalize_status raw = ''failed''"
    by (simp add: normalize_status_def Let_def)
  show ?thesis by (intro conjI m1 m2 m3 m4 m5 e normalize_canonical normalize_idem)
qed

theorem normalize_status_witness:
  "normalize_status ''  PaSSed  '' = ''passed'' \<and> normalize_status ''Ignored'' = ''skipped''
   \<and> normalize_status ''flaky'' = ''failed''"
proof -
  have a: "lower (strip ''  PaSSed  '') \<in> {''pass'', ''passed'', ''ok'', ''success''}" by code_simp
  have b: "lower (strip ''Ignored'') \<in> {''skip'', ''skipped'', ''ignored'', ''pending''}" by code_simp
  have c: "lower (strip ''flaky'') \<notin> {''pass'', ''passed'', ''ok'', ''success'', ''fail'', ''failed'', ''failure'',
        ''error'', ''errored'', ''skip'', ''skipped'', ''ignored'', ''pending''}" by code_simp
  have t1: "normalize_status ''  PaSSed  '' = ''passed''"
    using normalize_status_total_idempotent [of "''  PaSSed  ''", THEN conjunct1] a
    by (rule mp)
  have t2: "normalize_status ''Ignored'' = ''skipped''"
    using normalize_status_total_idempotent
      [of "''Ignored''", THEN conjunct2, THEN conjunct2, THEN conjunct2, THEN conjunct1] b
    by (rule mp)
  have t3: "normalize_status ''flaky'' = ''failed''"
    using normalize_status_total_idempotent
      [of "''flaky''", THEN conjunct2, THEN conjunct2, THEN conjunct2, THEN conjunct2,
       THEN conjunct1] c
    by (rule mp)
  show ?thesis by (intro conjI t1 t2 t3)
qed

subsection \<open>The analysis entry point\<close>

lemma classify_test_total: "\<exists>r. classify_test rnd config name execs = Inr r"
  by (simp add: classify_test_def decide_def rates_Inr Let_def)

lemma classify_test_name:
  "classify_test rnd config name execs = Inr r \<Longrightarrow> test_name_r r = name"
  by (auto simp add: classify_test_def Let_def split: sum.splits prod.splits)

lemma classify_test_classification:
  "classify_test rnd config name execs = Inr r \<Longrightarrow>
   classification r \<in> {''flaky'', ''true_failure'', ''stable'', ''always_skipped''}"
  by (auto simp add: classify_test_def decide_def rates_def truediv_def Let_def
      split: sum.splits prod.splits if_splits)

lemma classify_all_total:
  "\<exists>rs. classify_all rnd config g = Inr rs \<and> map test_name_r rs = map fst g
     \<and> (\<forall>r \<in> set rs. classification r \<in> {''flaky'', ''true_failure'', ''stable'', ''always_skipped''})"
proof (induction g)
  case Nil
  show ?case by simp
next
  case (Cons a g)
  obtain name execs where a: "a = (name, execs)" by (cases a)
  obtain r where r: "classify_test rnd config name execs = Inr r"
    using classify_test_total by blast
  from Cons obtain rs where rs: "classify_all rnd config g = Inr rs" "map test_name_r rs = map fst g"
    "\<forall>r \<in> set rs. classification r \<in> {''flaky'', ''true_failure'', ''stable'', ''always_skipped''}"
    by blast
  show ?case
    using r rs classify_test_name [OF r] classify_test_classification [OF r]
    by (simp add: a)
qed

lemma grouped_append_keys:
  "map fst (grouped_append g ex) =
     (if test_name ex \<in> set (map fst g) then map fst g else map fst g @ [test_name ex])"
  by (induction g ex rule: grouped_append.induct) auto

lemma foldl_grouped_append_keys:
  "distinct (map fst g) \<Longrightarrow>
   distinct (map fst (foldl grouped_append g xs))
   \<and> set (map fst (foldl grouped_append g xs)) = set (map fst g) \<union> test_name ` set xs"
proof (induction xs arbitrary: g)
  case Nil
  then show ?case by simp
next
  case (Cons x xs)
  have d: "distinct (map fst (grouped_append g x))"
    using Cons.prems by (simp add: grouped_append_keys)
  have s: "set (map fst (grouped_append g x)) = insert (test_name x) (set (map fst g))"
    by (auto simp add: grouped_append_keys)
  show ?case using Cons.IH [OF d] s by auto
qed

lemma group_by_name_keys:
  "distinct (map fst (group_by_name xs))" "set (map fst (group_by_name xs)) = test_name ` set xs"
  using foldl_grouped_append_keys [of "[]" xs] by (simp_all add: group_by_name_def)

lemma sorted_reverse_desc:
  "sorted_wrt (\<lambda>a b. key a \<ge> key b) (sorted_reverse key xs)"
proof -
  have "sorted (map key (sort_key key (rev xs)))" by simp
  then have "sorted_wrt (\<lambda>a b. key a \<le> key b) (sort_key key (rev xs))"
    by (simp add: sorted_map)
  then show ?thesis
    by (simp add: sorted_reverse_def sorted_wrt_rev)
qed

lemma mset_sorted_reverse: "mset (sorted_reverse key xs) = mset xs"
  by (simp add: sorted_reverse_def)

lemma length_sorted_reverse: "length (sorted_reverse key xs) = length xs"
  by (simp add: sorted_reverse_def)

lemma four_way_count:
  assumes "\<forall>r \<in> set rs. classification r \<in> {''flaky'', ''true_failure'', ''stable'', ''always_skipped''}"
  shows "int (length (filter (\<lambda>r. classification r = ''flaky'') rs))
       + int (length (filter (\<lambda>r. classification r = ''true_failure'') rs))
       + count_where (\<lambda>r. classification r = ''stable'') rs
       + count_where (\<lambda>r. classification r = ''always_skipped'') rs = int (length rs)"
  using assms by (induction rs) (auto simp add: count_where_def)


lemma map_of_grouped_append:
  "map_of (grouped_append g x) =
     (map_of g)(test_name x \<mapsto> (case map_of g (test_name x) of None \<Rightarrow> [x] | Some v \<Rightarrow> v @ [x]))"
  by (induction g x rule: grouped_append.induct) (auto simp add: fun_eq_iff)

lemma map_of_foldl_grouped_append:
  assumes "\<And>n. map_of g n =
      (if n \<in> test_name ` set seen then Some (filter (\<lambda>e. test_name e = n) seen) else None)"
  shows "map_of (foldl grouped_append g xs) n =
      (if n \<in> test_name ` set (seen @ xs)
       then Some (filter (\<lambda>e. test_name e = n) (seen @ xs)) else None)"
  using assms
proof (induction xs arbitrary: g seen)
  case Nil
  then show ?case by simp
next
  case (Cons x xs)
  have "\<And>n. map_of (grouped_append g x) n =
      (if n \<in> test_name ` set (seen @ [x])
       then Some (filter (\<lambda>e. test_name e = n) (seen @ [x])) else None)"
    by (auto simp add: map_of_grouped_append Cons.prems filter_empty_conv image_iff)
  from Cons.IH [of "grouped_append g x" "seen @ [x]", OF this]
  show ?case by simp
qed

lemma group_by_name_groups:
  assumes "(n, es) \<in> set (group_by_name xs)"
  shows "es = filter (\<lambda>e. test_name e = n) xs"
proof -
  have "map_of (group_by_name xs) n = Some es"
    using assms group_by_name_keys(1) [of xs] by simp
  moreover have "map_of (group_by_name xs) n =
      (if n \<in> test_name ` set xs then Some (filter (\<lambda>e. test_name e = n) xs) else None)"
    using map_of_foldl_grouped_append [of "[]" "[]" xs n] by (simp add: group_by_name_def)
  ultimately show ?thesis by (simp split: if_splits)
qed

lemma classify_all_members:
  "classify_all rnd config g = Inr rs \<Longrightarrow> r \<in> set rs \<Longrightarrow>
   \<exists>(n, es) \<in> set g. classify_test rnd config n es = Inr r"
proof (induction g arbitrary: rs)
  case Nil
  then show ?case by simp
next
  case (Cons a g)
  obtain name execs where a: "a = (name, execs)" by (cases a)
  from Cons.prems(1) obtain r0 rs0 where
    r0: "classify_test rnd config name execs = Inr r0"
    and rs0: "classify_all rnd config g = Inr rs0" and rs: "rs = r0 # rs0"
    by (auto simp add: a split: sum.splits)
  show ?case
  proof (cases "r = r0")
    case True
    then show ?thesis using r0 by (simp add: a)
  next
    case False
    then have "r \<in> set rs0" using Cons.prems(2) rs by simp
    from Cons.IH [OF rs0 this] show ?thesis by auto
  qed
qed

lemma analyze_nonempty:
  assumes "execs \<noteq> []" and rs: "classify_all rnd config (group_by_name execs) = Inr results"
  shows "analyze rnd config execs =
    Inr \<lparr>total_tests_analyzed = int (length results),
         flaky_tests = sorted_reverse flakiness_score
                           (filter (\<lambda>r. classification r = ''flaky'') results),
         true_failures = filter (\<lambda>r. classification r = ''true_failure'') results,
         stable_tests = count_where (\<lambda>r. classification r = ''stable'') results,
         always_skipped = count_where (\<lambda>r. classification r = ''always_skipped'') results,
         overall_flakiness_rate = rnd (of_int (int (length (filter (\<lambda>r. classification r = ''flaky'') results)))
              / of_int (int (length results))),
         metadata =
           [(''total_executions'', MInt (int (length execs))),
            (''unique_runs'', MInt (int (length (remdups (filter (\<lambda>r. r \<noteq> []) (map run_id execs)))))),
            (''config'', MDict
               [(''flakiness_threshold'', MFloat (flakiness_threshold config)),
                (''min_runs_required'', MInt (min_runs_required config)),
                (''true_failure_threshold'', MFloat (true_failure_threshold config))])]\<rparr>"
proof -
  have "map test_name_r results = map fst (group_by_name execs)"
    using classify_all_total [of rnd config "group_by_name execs"] rs by simp
  then have "length results = length (group_by_name execs)"
    by (metis length_map)
  moreover have "group_by_name execs \<noteq> []"
    using group_by_name_keys(2) [of execs] assms(1) by auto
  ultimately have "results \<noteq> []" by auto
  then show ?thesis
    using assms by (simp add: analyze_def Let_def truediv_def length_sorted_reverse)
qed


lemma analyze_empty:
  "analyze rnd config [] =
     Inr \<lparr>total_tests_analyzed = 0, flaky_tests = [], true_failures = [],
          stable_tests = 0, always_skipped = 0, overall_flakiness_rate = 0, metadata = []\<rparr>"
  by (simp add: analyze_def)

text \<open>
  Claim C5, as stated, fails on the empty collection: the guard at the head of
  \<^verbatim>\<open>analyze\<close> returns a summary built without the \<^verbatim>\<open>metadata\<close> argument, so the block is
  the empty dictionary of the dataclass's default and records nothing.
\<close>

theorem analyze_empty_has_no_metadata:
  "analyze id default_config [] =
     Inr \<lparr>total_tests_analyzed = 0, flaky_tests = [], true_failures = [],
          stable_tests = 0, always_skipped = 0, overall_flakiness_rate = 0, metadata = []\<rparr>"
  by (simp add: analyze_def)

text \<open>
  Claim C5, amended. For a non-empty collection of execution records \<^verbatim>\<open>analyze\<close> returns
  a summary, without an exception, whose metadata records the number of records under
  \<open>total_executions\<close>, the number of distinct non-empty run identifiers under
  \<open>unique_runs\<close> and the three configuration values under \<open>config\<close>. For the empty
  collection it returns, without an exception, the summary with
  \<open>total_tests_analyzed = 0\<close>, no results, zero counts and an empty metadata block.
\<close>

theorem analyze_metadata:
  "(execs \<noteq> [] \<longrightarrow>
      (\<exists>s. analyze rnd config execs = Inr s
         \<and> map_of (metadata s) ''total_executions'' = Some (MInt (int (length execs)))
         \<and> map_of (metadata s) ''unique_runs''
             = Some (MInt (int (card (run_id ` set execs - {[]}))))
         \<and> map_of (metadata s) ''config''
             = Some (MDict [(''flakiness_threshold'', MFloat (flakiness_threshold config)),
                            (''min_runs_required'', MInt (min_runs_required config)),
                            (''true_failure_threshold'', MFloat (true_failure_threshold config))])))
 \<and> (execs = [] \<longrightarrow>
      analyze rnd config execs =
        Inr \<lparr>total_tests_analyzed = 0, flaky_tests = [], true_failures = [],
             stable_tests = 0, always_skipped = 0, overall_flakiness_rate = 0, metadata = []\<rparr>)"
proof -
  obtain results where rs: "classify_all rnd config (group_by_name execs) = Inr results"
    using classify_all_total by blast
  have card: "length (remdups (filter (\<lambda>r. r \<noteq> []) (map run_id execs)))
      = card (run_id ` set execs - {[]})"
  proof -
    have "set (filter (\<lambda>r. r \<noteq> []) (map run_id execs))
        = run_id ` set execs - {[]}" by auto
    then show ?thesis by (metis length_remdups_card_conv)
  qed
  have a: "execs \<noteq> [] \<longrightarrow>
      (\<exists>s. analyze rnd config execs = Inr s
         \<and> map_of (metadata s) ''total_executions'' = Some (MInt (int (length execs)))
         \<and> map_of (metadata s) ''unique_runs''
             = Some (MInt (int (card (run_id ` set execs - {[]}))))
         \<and> map_of (metadata s) ''config''
             = Some (MDict [(''flakiness_threshold'', MFloat (flakiness_threshold config)),
                            (''min_runs_required'', MInt (min_runs_required config)),
                            (''true_failure_threshold'', MFloat (true_failure_threshold config))]))"
  proof
    assume ne: "execs \<noteq> []"
    show "\<exists>s. analyze rnd config execs = Inr s
         \<and> map_of (metadata s) ''total_executions'' = Some (MInt (int (length execs)))
         \<and> map_of (metadata s) ''unique_runs''
             = Some (MInt (int (card (run_id ` set execs - {[]}))))
         \<and> map_of (metadata s) ''config''
             = Some (MDict [(''flakiness_threshold'', MFloat (flakiness_threshold config)),
                            (''min_runs_required'', MInt (min_runs_required config)),
                            (''true_failure_threshold'', MFloat (true_failure_threshold config))])"
      by (simp add: analyze_nonempty [OF ne rs] card)
  qed
  have b: "execs = [] \<longrightarrow>
      analyze rnd config execs =
        Inr \<lparr>total_tests_analyzed = 0, flaky_tests = [], true_failures = [],
             stable_tests = 0, always_skipped = 0, overall_flakiness_rate = 0, metadata = []\<rparr>"
    by (simp add: analyze_empty)
  show ?thesis by (intro conjI a b)
qed

theorem analyze_metadata_witness:
  "\<exists>s. analyze id default_config
          [new_execution ''t'' ''passed'' ''r1'', new_execution ''t'' ''failed'' ''r2'',
           new_execution ''u'' ''passed'' ''r1'', new_execution ''u'' ''passed'' []] = Inr s
       \<and> map_of (metadata s) ''total_executions'' = Some (MInt 4)
       \<and> map_of (metadata s) ''unique_runs'' = Some (MInt 2)
       \<and> map_of (metadata s) ''config''
             = Some (MDict [(''flakiness_threshold'', MFloat 0),
                            (''min_runs_required'', MInt 2),
                            (''true_failure_threshold'', MFloat 1)])"
proof -
  let ?execs = "[new_execution ''t'' ''passed'' ''r1'', new_execution ''t'' ''failed'' ''r2'',
           new_execution ''u'' ''passed'' ''r1'', new_execution ''u'' ''passed'' []]"
  have ne: "?execs \<noteq> []" by simp
  have "run_id ` set ?execs - {[]} = {''r1'', ''r2''}"
    by (auto simp add: new_execution_def)
  then have c: "card (run_id ` set ?execs - {[]}) = 2"
    by simp
  from analyze_metadata [of ?execs id default_config, THEN conjunct1, THEN mp, OF ne]
  obtain s where s: "analyze id default_config ?execs = Inr s"
    "map_of (metadata s) ''total_executions'' = Some (MInt (int (length ?execs)))"
    "map_of (metadata s) ''unique_runs''
       = Some (MInt (int (card (run_id ` set ?execs - {[]}))))"
    "map_of (metadata s) ''config''
       = Some (MDict [(''flakiness_threshold'', MFloat (flakiness_threshold default_config)),
                      (''min_runs_required'', MInt (min_runs_required default_config)),
                      (''true_failure_threshold'', MFloat (true_failure_threshold default_config))])"
    by blast
  have "map_of (metadata s) ''total_executions'' = Some (MInt 4)" using s(2) by simp
  moreover have "map_of (metadata s) ''unique_runs'' = Some (MInt 2)"
    using s(3) by (simp only: c) simp
  moreover have "map_of (metadata s) ''config''
             = Some (MDict [(''flakiness_threshold'', MFloat 0),
                            (''min_runs_required'', MInt 2),
                            (''true_failure_threshold'', MFloat 1)])"
    using s(4) by (simp add: default_config_def)
  ultimately show ?thesis using s(1) by (intro exI [of _ s] conjI)
qed

text \<open>
  Claim C9. \<^verbatim>\<open>analyze\<close> always returns a summary. Its flaky list is sorted by score,
  descending. The per-test results behind it are one for each test identity of the
  input, each the classification of exactly the records of that identity, each with
  one of the four classifications; the flaky list holds the results classified flaky,
  the true-failure list those classified true failure, the two counters count the
  stable and the always-skipped ones, and the four sizes add up to
  \<open>total_tests_analyzed\<close>, the number of results.
\<close>

theorem analyze_partition:
  "\<exists>s results. analyze rnd config execs = Inr s
     \<and> classify_all rnd config (group_by_name execs) = Inr results
     \<and> distinct (map test_name_r results)
     \<and> set (map test_name_r results) = test_name ` set execs
     \<and> (\<forall>r \<in> set results.
           classify_test rnd config (test_name_r r)
             (filter (\<lambda>e. test_name e = test_name_r r) execs) = Inr r
         \<and> classification r \<in> {''flaky'', ''true_failure'', ''stable'', ''always_skipped''})
     \<and> sorted_wrt (\<lambda>a b. flakiness_score a \<ge> flakiness_score b) (flaky_tests s)
     \<and> mset (flaky_tests s) = mset (filter (\<lambda>r. classification r = ''flaky'') results)
     \<and> true_failures s = filter (\<lambda>r. classification r = ''true_failure'') results
     \<and> stable_tests s = int (length (filter (\<lambda>r. classification r = ''stable'') results))
     \<and> always_skipped s = int (length (filter (\<lambda>r. classification r = ''always_skipped'') results))
     \<and> total_tests_analyzed s = int (length results)
     \<and> int (length (flaky_tests s)) + int (length (true_failures s))
           + stable_tests s + always_skipped s = total_tests_analyzed s"
proof -
  obtain results where rs: "classify_all rnd config (group_by_name execs) = Inr results"
    and names: "map test_name_r results = map fst (group_by_name execs)"
    and cls: "\<forall>r \<in> set results.
      classification r \<in> {''flaky'', ''true_failure'', ''stable'', ''always_skipped''}"
    using classify_all_total [of rnd config "group_by_name execs"] by blast
  have d: "distinct (map test_name_r results)"
    and n: "set (map test_name_r results) = test_name ` set execs"
    using group_by_name_keys [of execs] by (simp_all only: names)
  have g: "classify_test rnd config (test_name_r r)
             (filter (\<lambda>e. test_name e = test_name_r r) execs) = Inr r" if "r \<in> set results" for r
  proof -
    from classify_all_members [OF rs that] obtain nm es
      where m: "(nm, es) \<in> set (group_by_name execs)" and c: "classify_test rnd config nm es = Inr r"
      by auto
    have "test_name_r r = nm" using classify_test_name [OF c] .
    moreover have "es = filter (\<lambda>e. test_name e = nm) execs"
      using group_by_name_groups [OF m] .
    ultimately show ?thesis using c by simp
  qed
  have four: "int (length (filter (\<lambda>r. classification r = ''flaky'') results))
       + int (length (filter (\<lambda>r. classification r = ''true_failure'') results))
       + count_where (\<lambda>r. classification r = ''stable'') results
       + count_where (\<lambda>r. classification r = ''always_skipped'') results = int (length results)"
    using four_way_count [OF cls] .
  show ?thesis
  proof (cases "execs = []")
    case True
    then have "results = []" using rs by (simp add: group_by_name_def)
    then show ?thesis using True rs by (simp add: analyze_empty group_by_name_def)
  next
    case False
    show ?thesis
      using rs d n cls g four
      by (simp add: analyze_nonempty [OF False rs] sorted_reverse_desc mset_sorted_reverse
          length_sorted_reverse count_where_def del: mset_filter)
  qed
qed


lemma example_total:
  "(case analyze id default_config
          [new_execution ''t'' ''passed'' ''r1'', new_execution ''u'' ''failed'' ''r1'',
           new_execution ''t'' ''failed'' ''r2'', new_execution ''u'' ''failed'' ''r2'',
           new_execution ''v'' ''passed'' ''r2''] of Inl e \<Rightarrow> False
     | Inr s \<Rightarrow> total_tests_analyzed s = 3 \<and> map test_name_r (flaky_tests s) = [''t'']
         \<and> map test_name_r (true_failures s) = [''u''] \<and> stable_tests s = 1)"
  by code_simp


theorem analyze_partition_witness:
  "\<exists>s. analyze id default_config
          [new_execution ''t'' ''passed'' ''r1'', new_execution ''u'' ''failed'' ''r1'',
           new_execution ''t'' ''failed'' ''r2'', new_execution ''u'' ''failed'' ''r2'',
           new_execution ''v'' ''passed'' ''r2''] = Inr s
       \<and> sorted_wrt (\<lambda>a b. flakiness_score a \<ge> flakiness_score b) (flaky_tests s)
       \<and> int (length (flaky_tests s)) + int (length (true_failures s))
           + stable_tests s + always_skipped s = total_tests_analyzed s
       \<and> total_tests_analyzed s = 3
       \<and> map test_name_r (flaky_tests s) = [''t'']
       \<and> map test_name_r (true_failures s) = [''u'']
       \<and> stable_tests s = 1"
proof -
  let ?execs = "[new_execution ''t'' ''passed'' ''r1'', new_execution ''u'' ''failed'' ''r1'',
           new_execution ''t'' ''failed'' ''r2'', new_execution ''u'' ''failed'' ''r2'',
           new_execution ''v'' ''passed'' ''r2'']"
  from analyze_partition [of id default_config ?execs]
  obtain s where s: "analyze id default_config ?execs = Inr s"
    "sorted_wrt (\<lambda>a b. flakiness_score a \<ge> flakiness_score b) (flaky_tests s)"
    "int (length (flaky_tests s)) + int (length (true_failures s))
       + stable_tests s + always_skipped s = total_tests_analyzed s"
    by blast
  have c: "total_tests_analyzed s = 3 \<and> map test_name_r (flaky_tests s) = [''t'']
         \<and> map test_name_r (true_failures s) = [''u''] \<and> stable_tests s = 1"
    using example_total by (simp only: s(1) sum.case)
  show ?thesis
    by (rule exI [of _ s]) (intro conjI s c [THEN conjunct1] c [THEN conjunct2, THEN conjunct1]
        c [THEN conjunct2, THEN conjunct2, THEN conjunct1]
        c [THEN conjunct2, THEN conjunct2, THEN conjunct2])
qed

subsection \<open>The example environment, evaluated\<close>

lemma example_load:
  "load_results_from_directory example_env [''results''] =
     Inr ([\<lparr>test_name = ''auth::test_login'', status = ''passed'', run_id = ''run_a'',
            duration_seconds = Finite (1 / 4), error_message = [], timestamp = []\<rparr>,
           \<lparr>test_name = ''test_sso'', status = ''skipped'', run_id = ''run_a'',
            duration_seconds = Finite 0, error_message = ''not on CI'', timestamp = []\<rparr>,
           \<lparr>test_name = ''auth::test_logout'', status = ''failed'', run_id = ''run_b'',
            duration_seconds = Finite 0, error_message = [], timestamp = []\<rparr>,
           \<lparr>test_name = ''auth::test_login'', status = ''passed'', run_id = ''run_b'',
            duration_seconds = Finite 0, error_message = [], timestamp = []\<rparr>],
          [INFO ''Loaded %d test executions from %s''])"
  by code_simp


lemma example_bad:
  "parse_junit_xml example_env [''bad.xml''] [] = Inl ValueError"
  "parse_junit_xml example_env [''missing.xml''] [] = Inl OSError"
  by code_simp+



subsection \<open>The JUnit XML parser\<close>

text \<open>
  Claim C3 fails on the code. \<^verbatim>\<open>parse_junit_xml\<close> catches \<^verbatim>\<open>ET.ParseError\<close> only: a test
  case whose \<^verbatim>\<open>time\<close> attribute is a non-empty string that \<^verbatim>\<open>float\<close> rejects makes the
  parser raise \<^verbatim>\<open>ValueError\<close> instead of taking \<open>0\<close>, and an \<^verbatim>\<open>OSError\<close> of \<^verbatim>\<open>ET.parse\<close>
  (which the JSON and the text parser catch) leaves the parser as well.
\<close>

theorem parse_junit_xml_propagates:
  "(ET_parse env p = Inr (Element ''testsuite'' a x [Element ''testcase'' [(''name'', n), (''time'', t)] y []])
      \<and> t \<noteq> [] \<and> float_of_str env t = None
    \<longrightarrow> parse_junit_xml env p rid = Inl ValueError)
 \<and> (ET_parse env p = Inl OSError \<longrightarrow> parse_junit_xml env p rid = Inl OSError)"
  by (simp add: parse_junit_xml_def parse_testcase_def element_findall_def element_get_def Let_def)

theorem parse_junit_xml_propagates_witness:
  "parse_junit_xml example_env [''bad.xml''] [] = Inl ValueError
   \<and> parse_junit_xml example_env [''missing.xml''] [] = Inl OSError"
proof -
  have a: "ET_parse example_env [''bad.xml''] =
      Inr (Element ''testsuite'' [] None [Element ''testcase'' [(''name'', ''t''), (''time'', ''abc'')] None []])
      \<and> ''abc'' \<noteq> [] \<and> float_of_str example_env ''abc'' = None"
    by (simp add: example_env_def bad_time_suite_def)
  have b: "ET_parse example_env [''missing.xml''] = Inl OSError"
    by (simp add: example_env_def)
  have "parse_junit_xml example_env [''bad.xml''] [] = Inl ValueError"
    using parse_junit_xml_propagates [THEN conjunct1] a by (rule mp)
  moreover have "parse_junit_xml example_env [''missing.xml''] [] = Inl OSError"
    using parse_junit_xml_propagates [THEN conjunct2] b by (rule mp)
  ultimately show ?thesis by (rule conjI)
qed

subsection \<open>The directory loader\<close>

lemma traverse_members:
  "traverse f xs = Inr ys \<Longrightarrow> y \<in> set ys \<Longrightarrow> \<exists>x \<in> set xs. f x = Inr y"
proof (induction xs arbitrary: ys)
  case Nil
  then show ?case by simp
next
  case (Cons x xs)
  from Cons.prems(1) obtain y0 ys0 where y0: "f x = Inr y0"
    and ys0: "traverse f xs = Inr ys0" and ys: "ys = y0 # ys0"
    by (auto split: sum.splits)
  show ?case
  proof (cases "y = y0")
    case True
    then show ?thesis using y0 by simp
  next
    case False
    then have "y \<in> set ys0" using Cons.prems(2) ys by simp
    from Cons.IH [OF ys0 this] show ?thesis by auto
  qed
qed

lemma parse_testcase_run_id:
  "parse_testcase env p rid tc = Inr e \<Longrightarrow> run_id e = run_id_or_stem rid p"
  by (auto simp add: parse_testcase_def Let_def split: option.splits prod.splits)

lemma parse_json_record_run_id:
  "parse_json_record env p rid d = Inr e \<Longrightarrow> run_id e = run_id_or_stem rid p"
  by (auto simp add: parse_json_record_def Let_def split: sum.splits json.splits)

lemma parse_junit_xml_run_id:
  assumes "parse_junit_xml env p rid = Inr (recs, lg)" and "r \<in> set recs"
  shows "run_id r = run_id_or_stem rid p"
proof -
  from assms obtain xs where "traverse (parse_testcase env p rid) xs = Inr recs"
    by (auto simp add: parse_junit_xml_def Let_def split: sum.splits if_splits)
  from traverse_members [OF this assms(2)] show ?thesis
    by (auto dest: parse_testcase_run_id)
qed

lemma parse_json_results_run_id:
  assumes "parse_json_results env p rid = Inr (recs, lg)" and "r \<in> set recs"
  shows "run_id r = run_id_or_stem rid p"
proof -
  from assms obtain xs where "traverse (parse_json_record env p rid) xs = Inr recs"
    by (auto simp add: parse_json_results_def Let_def split: sum.splits if_splits json.splits)
  from traverse_members [OF this assms(2)] show ?thesis
    by (auto dest: parse_json_record_run_id)
qed

lemma parse_text_log_run_id:
  assumes "parse_text_log env p rid = Inr (recs, lg)" and "r \<in> set recs"
  shows "run_id r = run_id_or_stem rid p"
  using assms
  by (auto simp add: parse_text_log_def new_execution_def Let_def split: sum.splits if_splits)

lemma auto_detect_run_id:
  assumes "auto_detect_and_parse env p rid = Inr (recs, lg)" and "r \<in> set recs"
  shows "run_id r = run_id_or_stem rid p"
  using assms parse_junit_xml_run_id parse_json_results_run_id parse_text_log_run_id
  unfolding auto_detect_and_parse_def Let_def
  by (metis (full_types))

text \<open>
  The status of every record a parser returns is canonical: the records the loader
  returns meet the hypothesis of the theorem on the counts of a result.
\<close>

lemma parse_testcase_status:
  assumes "parse_testcase env p rid tc = Inr e"
  shows "status e \<in> {''passed'', ''failed'', ''error'', ''skipped''}"
proof -
  from assms obtain st msg d where "e = \<lparr>test_name =
      (if element_get tc ''classname'' [] \<noteq> []
       then element_get tc ''classname'' [] @ ''::'' @ element_get tc ''name'' ''unknown''
       else element_get tc ''name'' ''unknown''),
      status = st, run_id = run_id_or_stem rid p, duration_seconds = d,
      error_message = take 500 msg, timestamp = []\<rparr>"
    and "st = ''failed'' \<or> st = ''error'' \<or> st = ''skipped'' \<or> st = ''passed''"
    by (auto simp add: parse_testcase_def Let_def split: option.splits prod.splits)
  then show ?thesis by auto
qed

lemma parse_json_record_status:
  assumes "parse_json_record env p rid d = Inr e"
  shows "status e \<in> {''passed'', ''failed'', ''error'', ''skipped''}"
proof -
  from assms obtain raw where "status e = normalize_status raw"
    by (auto simp add: parse_json_record_def Let_def split: sum.splits json.splits)
  then show ?thesis using normalize_canonical [of raw] by simp
qed

lemma parsers_canonical_status:
  assumes "auto_detect_and_parse env p rid = Inr (recs, lg)" and "r \<in> set recs"
  shows "status r \<in> {''passed'', ''failed'', ''error'', ''skipped''}"
proof -
  let ?C = "{''passed'', ''failed'', ''error'', ''skipped''}"
  have x: "status r \<in> ?C" if "parse_junit_xml env p rid = Inr (recs, lg)"
  proof -
    from that assms(2) obtain xs where "traverse (parse_testcase env p rid) xs = Inr recs"
      by (auto simp add: parse_junit_xml_def Let_def split: sum.splits if_splits)
    from traverse_members [OF this assms(2)] show ?thesis
      by (auto dest: parse_testcase_status)
  qed
  have j: "status r \<in> ?C" if "parse_json_results env p rid = Inr (recs, lg)"
  proof -
    from that assms(2) obtain xs where "traverse (parse_json_record env p rid) xs = Inr recs"
      by (auto simp add: parse_json_results_def Let_def split: sum.splits if_splits json.splits)
    from traverse_members [OF this assms(2)] show ?thesis
      by (auto dest: parse_json_record_status)
  qed
  have t: "status r \<in> ?C" if "parse_text_log env p rid = Inr (recs, lg)"
  proof -
    from that assms(2) obtain raw where "status r = normalize_status raw"
      by (auto simp add: parse_text_log_def new_execution_def Let_def split: sum.splits if_splits)
    then show ?thesis using normalize_canonical [of raw] by simp
  qed
  show ?thesis
    using assms(1) x j t unfolding auto_detect_and_parse_def Let_def
    by (metis (full_types))
qed

lemma load_files_members:
  "load_files env rid fs = Inr (recs, lg) \<Longrightarrow> r \<in> set recs \<Longrightarrow>
   \<exists>file_path \<in> set fs. \<exists>recs' lg'.
      auto_detect_and_parse env file_path rid = Inr (recs', lg') \<and> r \<in> set recs'"
proof (induction fs arbitrary: recs lg)
  case Nil
  then show ?case by simp
next
  case (Cons f fs)
  show ?case
  proof (cases "is_file env f
         \<and> lower (suffix f) \<in> set [''.xml'', ''.json'', ''.log'', ''.txt'']")
    case False
    then have "load_files env rid fs = Inr (recs, lg)" using Cons.prems(1) by auto
    from Cons.IH [OF this Cons.prems(2)] show ?thesis by auto
  next
    case True
    with Cons.prems(1) obtain r1 l1 r2 l2 where
      a: "auto_detect_and_parse env f rid = Inr (r1, l1)"
      and b: "load_files env rid fs = Inr (r2, l2)" and c: "recs = r1 @ r2"
      by (auto split: sum.splits prod.splits)
    show ?thesis
    proof (cases "r \<in> set r1")
      case True
      then show ?thesis using a by auto
    next
      case False
      then have "r \<in> set r2" using Cons.prems(2) c by simp
      from Cons.IH [OF b this] show ?thesis by auto
    qed
  qed
qed

lemma load_subdirs_members:
  "load_subdirs env ds = Inr (recs, lg) \<Longrightarrow> r \<in> set recs \<Longrightarrow>
   \<exists>subdir \<in> set ds. \<exists>recs' lg'.
      load_files env (path_name subdir) (sort (iterdir env subdir)) = Inr (recs', lg')
      \<and> r \<in> set recs'"
proof (induction ds arbitrary: recs lg)
  case Nil
  then show ?case by simp
next
  case (Cons d ds)
  from Cons.prems(1) obtain r1 l1 r2 l2 where
    a: "load_files env (path_name d) (sort (iterdir env d)) = Inr (r1, l1)"
    and b: "load_subdirs env ds = Inr (r2, l2)" and c: "recs = r1 @ r2"
    by (auto split: sum.splits prod.splits)
  show ?case
  proof (cases "r \<in> set r1")
    case True
    then show ?thesis using a by auto
  next
    case False
    then have "r \<in> set r2" using Cons.prems(2) c by simp
    from Cons.IH [OF b this] show ?thesis by auto
  qed
qed

text \<open>
  Claim C7. When the root is no directory the loader returns no record and one
  warning, without an exception. When the root has a subdirectory (directory entries
  have non-empty names) and the loader returns, every record it returns was parsed
  from an entry of a subdirectory of the root with that subdirectory's name as the
  run identifier, and carries that name as its run identifier; and whatever the path
  of a file, the records parsed from it with a non-empty run identifier all carry that
  identifier.
\<close>

theorem loader_run_ids:
  "(\<not> is_dir env directory \<longrightarrow>
      load_results_from_directory env directory
        = Inr ([], [WARNING ''Test results directory does not exist: %s'']))
 \<and> (is_dir env directory
      \<and> (\<exists>d \<in> set (iterdir env directory). is_dir env d)
      \<and> (\<forall>d \<in> set (iterdir env directory). path_name d \<noteq> [])
      \<and> load_results_from_directory env directory = Inr (records, logs)
    \<longrightarrow> (\<forall>r \<in> set records.
          \<exists>subdir \<in> set (iterdir env directory). is_dir env subdir
            \<and> run_id r = path_name subdir
            \<and> (\<exists>file_path \<in> set (iterdir env subdir). \<exists>recs lg.
                  auto_detect_and_parse env file_path (path_name subdir) = Inr (recs, lg)
                  \<and> r \<in> set recs)))
 \<and> (rid \<noteq> [] \<and> auto_detect_and_parse env any_path rid = Inr (file_records, file_logs)
    \<longrightarrow> (\<forall>r \<in> set file_records. run_id r = rid))"
proof (intro conjI impI ballI)
  fix r
  assume "rid \<noteq> [] \<and> auto_detect_and_parse env any_path rid = Inr (file_records, file_logs)"
    and "r \<in> set file_records"
  then show "run_id r = rid"
    using auto_detect_run_id [of env any_path rid file_records file_logs r]
    by (simp add: run_id_or_stem_def)
next
  assume "\<not> is_dir env directory"
  then show "load_results_from_directory env directory
        = Inr ([], [WARNING ''Test results directory does not exist: %s''])"
    by (simp add: load_results_from_directory_def)
next
  fix r
  assume h: "is_dir env directory
      \<and> (\<exists>d \<in> set (iterdir env directory). is_dir env d)
      \<and> (\<forall>d \<in> set (iterdir env directory). path_name d \<noteq> [])
      \<and> load_results_from_directory env directory = Inr (records, logs)"
    and r: "r \<in> set records"
  let ?subdirs = "sort (filter (is_dir env) (iterdir env directory))"
  have ss: "set ?subdirs = {d \<in> set (iterdir env directory). is_dir env d}" by auto
  from h obtain d0 where d0: "d0 \<in> set (iterdir env directory)" "is_dir env d0" by blast
  then have "d0 \<in> set ?subdirs" by simp
  then have ne: "?subdirs \<noteq> []" by (metis empty_iff empty_set)
  have nm: "\<forall>d \<in> set (iterdir env directory). path_name d \<noteq> []" using h by blast
  have ld: "load_results_from_directory env directory = Inr (records, logs)" using h by blast
  have isd: "is_dir env directory" using h by blast
  from ld isd ne obtain lg0 where "load_subdirs env ?subdirs = Inr (records, lg0)"
    by (auto simp add: load_results_from_directory_def Let_def split: sum.splits prod.splits)
  from load_subdirs_members [OF this r] obtain subdir recs' lg' where
    sd: "subdir \<in> set ?subdirs"
    and lf: "load_files env (path_name subdir) (sort (iterdir env subdir)) = Inr (recs', lg')"
    and r': "r \<in> set recs'" by blast
  from load_files_members [OF lf r'] obtain file_path recs lg where
    f: "file_path \<in> set (iterdir env subdir)"
    and a: "auto_detect_and_parse env file_path (path_name subdir) = Inr (recs, lg)"
    and rr: "r \<in> set recs" by auto
  have sd': "subdir \<in> set (iterdir env directory)" "is_dir env subdir" using sd ss by auto
  then have "path_name subdir \<noteq> []" using nm by auto
  then have "run_id r = path_name subdir"
    using auto_detect_run_id [OF a rr] by (simp add: run_id_or_stem_def)
  then show "\<exists>subdir \<in> set (iterdir env directory). is_dir env subdir
            \<and> run_id r = path_name subdir
            \<and> (\<exists>file_path \<in> set (iterdir env subdir). \<exists>recs lg.
                  auto_detect_and_parse env file_path (path_name subdir) = Inr (recs, lg)
                  \<and> r \<in> set recs)"
    using sd' f a rr by blast
qed

theorem loader_run_ids_witness:
  "load_results_from_directory example_env [''missing''] =
      Inr ([], [WARNING ''Test results directory does not exist: %s''])
   \<and> (\<exists>records logs. load_results_from_directory example_env [''results''] = Inr (records, logs)
        \<and> map run_id records = [''run_a'', ''run_a'', ''run_b'', ''run_b'']
        \<and> (\<forall>r \<in> set records.
             \<exists>subdir \<in> set (iterdir example_env [''results'']). is_dir example_env subdir
               \<and> run_id r = path_name subdir
               \<and> (\<exists>file_path \<in> set (iterdir example_env subdir). \<exists>recs lg.
                  auto_detect_and_parse example_env file_path (path_name subdir) = Inr (recs, lg)
                  \<and> r \<in> set recs)))"
proof -
  have m: "\<not> is_dir example_env [''missing'']" by (simp add: example_env_def)
  have a: "load_results_from_directory example_env [''missing''] =
      Inr ([], [WARNING ''Test results directory does not exist: %s''])"
    using loader_run_ids [THEN conjunct1] m by (rule mp)
  obtain records logs where
    l: "load_results_from_directory example_env [''results''] = Inr (records, logs)"
    and ids: "map run_id records = [''run_a'', ''run_a'', ''run_b'', ''run_b'']"
    using example_load by simp
  have h: "is_dir example_env [''results'']
      \<and> (\<exists>d \<in> set (iterdir example_env [''results'']). is_dir example_env d)
      \<and> (\<forall>d \<in> set (iterdir example_env [''results'']). path_name d \<noteq> [])
      \<and> load_results_from_directory example_env [''results''] = Inr (records, logs)"
    using l by (simp add: example_env_def path_name_def)
  have b: "\<forall>r \<in> set records.
             \<exists>subdir \<in> set (iterdir example_env [''results'']). is_dir example_env subdir
               \<and> run_id r = path_name subdir
               \<and> (\<exists>file_path \<in> set (iterdir example_env subdir). \<exists>recs lg.
                  auto_detect_and_parse example_env file_path (path_name subdir) = Inr (recs, lg)
                  \<and> r \<in> set recs)"
    using loader_run_ids [THEN conjunct2, THEN conjunct1] h by (rule mp)
  show ?thesis
    by (intro conjI a exI [of _ records] exI [of _ logs] l ids b)
qed

subsection \<open>The free-text parser\<close>










lemma normalize_status_words:
  "normalize_status ''passed'' = ''passed''" "normalize_status ''pass'' = ''passed''"
  "normalize_status ''failed'' = ''failed''" "normalize_status ''fail'' = ''failed''"
  "normalize_status ''error'' = ''error''"
  "normalize_status ''skipped'' = ''skipped''" "normalize_status ''skip'' = ''skipped''"
  by code_simp+





















subsection \<open>Error messages\<close>

text \<open>
  Claim C10. The error messages of a result are the distinct non-empty error messages
  of all the executions of the group, whatever their status; and a test case of a
  JUnit report with a skipped marker (and no failure or error marker) becomes a skipped
  execution whose error message is the marker's message attribute, cut at 500
  characters, so that it is reported.
\<close>

theorem error_messages_all_statuses:
  "(\<exists>r. classify_test rnd config name execs = Inr r
       \<and> set (error_messages r) = error_message ` set execs - {[]}
       \<and> distinct (error_messages r))
 \<and> (float_of_str env (if element_get tc ''time'' ''0'' \<noteq> [] then element_get tc ''time'' ''0'' else ''0'')
        = Some d
      \<and> element_find tc ''failure'' = None \<and> element_find tc ''error'' = None
      \<and> element_find tc ''skipped'' = Some sk
    \<longrightarrow> (\<exists>e. parse_testcase env p rid tc = Inr e \<and> status e = ''skipped''
           \<and> error_message e = take 500 (element_get sk ''message'' [])))"
proof (intro conjI impI)
  obtain r where r: "classify_test rnd config name execs = Inr r"
    using classify_test_total by blast
  then have em: "error_messages r
      = remdups (map error_message (filter (\<lambda>e. error_message e \<noteq> []) execs))"
    by (auto simp add: classify_test_def Let_def split: sum.splits prod.splits)
  have "set (error_messages r) = error_message ` set execs - {[]}"
    unfolding em by auto
  moreover have "distinct (error_messages r)" unfolding em by simp
  ultimately show "\<exists>r. classify_test rnd config name execs = Inr r
       \<and> set (error_messages r) = error_message ` set execs - {[]}
       \<and> distinct (error_messages r)" using r by blast
next
  assume "float_of_str env (if element_get tc ''time'' ''0'' \<noteq> [] then element_get tc ''time'' ''0'' else ''0'')
        = Some d
      \<and> element_find tc ''failure'' = None \<and> element_find tc ''error'' = None
      \<and> element_find tc ''skipped'' = Some sk"
  then show "\<exists>e. parse_testcase env p rid tc = Inr e \<and> status e = ''skipped''
           \<and> error_message e = take 500 (element_get sk ''message'' [])"
    by (simp add: parse_testcase_def Let_def)
qed


theorem error_messages_all_statuses_witness:
  "\<exists>e r. parse_testcase example_env [''results'', ''run_a'', ''report.xml''] ''run_a''
            (Element ''testcase'' [(''name'', ''test_sso'')] None
               [Element ''skipped'' [(''message'', ''not on CI'')] None []]) = Inr e
       \<and> status e = ''skipped'' \<and> error_message e = ''not on CI''
       \<and> classify_test id default_config ''test_sso'' [e] = Inr r
       \<and> set (error_messages r) = {''not on CI''}"
proof -
  let ?sk = "Element ''skipped'' [(''message'', ''not on CI'')] None []"
  let ?tc = "Element ''testcase'' [(''name'', ''test_sso'')] None [?sk]"
  have h: "float_of_str example_env
        (if element_get ?tc ''time'' ''0'' \<noteq> [] then element_get ?tc ''time'' ''0'' else ''0'')
        = Some (Finite 0)
      \<and> element_find ?tc ''failure'' = None \<and> element_find ?tc ''error'' = None
      \<and> element_find ?tc ''skipped'' = Some ?sk"
    by (simp add: example_env_def element_get_def element_find_def)
  from error_messages_all_statuses [THEN conjunct2, THEN mp, OF h]
  obtain e where e: "parse_testcase example_env [''results'', ''run_a'', ''report.xml''] ''run_a'' ?tc = Inr e"
    "status e = ''skipped''" "error_message e = take 500 (element_get ?sk ''message'' [])"
    by blast
  have m: "error_message e = ''not on CI''"
    using e(3) by (simp add: element_get_def)
  from error_messages_all_statuses [THEN conjunct1, of id default_config "''test_sso''" "[e]"]
  obtain r where r: "classify_test id default_config ''test_sso'' [e] = Inr r"
    "set (error_messages r) = error_message ` set [e] - {[]}"
    by blast
  have "set (error_messages r) = {''not on CI''}"
    using r(2) by (simp add: m)
  then show ?thesis using e(1,2) m r(1) by (intro exI [of _ e] exI [of _ r] conjI)
qed

end
